theory Spec2Isabelle
  imports Main "HOL-Library.Word" "HOL-Library.Char_ord" "HOL-Library.List_Lexorder"
begin

section \<open>The replication queue of ReplicatedMergeTreeQueue.cpp\<close>

text \<open>
  A shallow embedding of \<^verbatim>\<open>dbms/src/Storages/MergeTree/ReplicatedMergeTreeQueue.cpp\<close>.
  \<^item> \<^verbatim>\<open>String\<close> is \<open>string\<close>, compared bytewise and lexicographically as
    \<^verbatim>\<open>std::string\<close> is (the orders of Char_ord and List_Lexorder).
  \<^item> \<^verbatim>\<open>Int64\<close> block numbers and \<^verbatim>\<open>time_t\<close> are \<open>int\<close>. The only arithmetic on them
    is \<^verbatim>\<open>left_max_block + 1\<close> and \<^verbatim>\<open>right_min_block - 1\<close> in canMergeParts; signed
    overflow there is undefined in C++ and is not part of the model.
  \<^item> \<^verbatim>\<open>size_t\<close> is \<open>64 word\<close>: the sum of part sizes wraps as the unsigned type does.
  \<^item> \<^verbatim>\<open>std::map\<close> and \<^verbatim>\<open>std::set\<close> keyed by Int64 are lists kept in strictly increasing
    key order, an iterator is an index into the list, \<^verbatim>\<open>end()\<close> is the length.
  \<^item> \<^verbatim>\<open>std::unordered_map\<close> keyed by String is a map \<open>string \<rightharpoonup> 'v\<close>.
  \<^item> a \<^verbatim>\<open>LogEntryPtr\<close> (shared pointer) is an index into the list of all LogEntry
    objects alive; the queue holds pointers, as the source does.
  \<^item> every \<^verbatim>\<open>throw\<close> is a value of type \<open>error\<close>.
\<close>

subsection \<open>Part infos\<close>

record MergeTreePartInfo =
  partition_id :: string
  min_block :: int
  max_block :: int
  level :: nat
  version :: int

text \<open>
  Modelled from the spec: MergeTreePartInfo::contains is declared in MergeTreePartInfo.h,
  which is not part of the file. "A contains B iff same partition, A.min \<le> B.min,
  A.max \<ge> B.max, A.level \<ge> B.level."
\<close>

definition contains :: "MergeTreePartInfo \<Rightarrow> MergeTreePartInfo \<Rightarrow> bool" where
  "contains outer inner \<longleftrightarrow>
     partition_id outer = partition_id inner
     \<and> min_block outer \<le> min_block inner
     \<and> max_block outer \<ge> max_block inner
     \<and> level outer \<ge> level inner"

text \<open>The constructor \<^verbatim>\<open>MergeTreePartInfo(partition_id, min_block, max_block, level)\<close>;
  the mutation version of a part built this way is 0.\<close>

definition MergeTreePartInfo_make :: "string \<Rightarrow> int \<Rightarrow> int \<Rightarrow> nat \<Rightarrow> MergeTreePartInfo" where
  "MergeTreePartInfo_make p lo hi l =
     \<lparr>partition_id = p, min_block = lo, max_block = hi, level = l, version = 0\<rparr>"

subsection \<open>Ordered containers\<close>

text \<open>\<^verbatim>\<open>std::map<Int64, V>::upper_bound(x)\<close>: the position of the first key greater than
  \<open>x\<close>, the length (\<^verbatim>\<open>end()\<close>) when there is none.\<close>

definition upper_bound :: "(int \<times> 'v) list \<Rightarrow> int \<Rightarrow> nat" where
  "upper_bound m x = length (takeWhile (\<lambda>kv. fst kv \<le> x) m)"

text \<open>\<^verbatim>\<open>std::map<Int64, V>::find(k)\<close>: the position of the key, the length when absent.\<close>

definition map_find :: "(int \<times> 'v) list \<Rightarrow> int \<Rightarrow> nat" where
  "map_find m k = length (takeWhile (\<lambda>kv. fst kv \<noteq> k) m)"

text \<open>\<^verbatim>\<open>std::map<Int64, V>::emplace(k, v)\<close>: inserts in key order, and leaves the map as it
  is when the key is present.\<close>

fun map_emplace :: "int \<Rightarrow> 'v \<Rightarrow> (int \<times> 'v) list \<Rightarrow> (int \<times> 'v) list" where
  "map_emplace k v [] = [(k, v)]"
| "map_emplace k v ((k', v') # m) =
     (if k < k' then (k, v) # (k', v') # m
      else if k = k' then (k', v') # m
      else (k', v') # map_emplace k v m)"

text \<open>\<^verbatim>\<open>std::map<Int64, V>::erase(k)\<close>.\<close>

definition map_erase :: "int \<Rightarrow> (int \<times> 'v) list \<Rightarrow> (int \<times> 'v) list" where
  "map_erase k m = filter (\<lambda>kv. fst kv \<noteq> k) m"

text \<open>\<^verbatim>\<open>std::set<Int64>::upper_bound(x)\<close>: the first element greater than \<open>x\<close>, if any.\<close>

definition set_upper_bound :: "int list \<Rightarrow> int \<Rightarrow> int option" where
  "set_upper_bound xs x = find (\<lambda>b. x < b) xs"

subsection \<open>Mutations\<close>

type_synonym MutationCommand = string

record ReplicatedMergeTreeMutationEntry =
  mutation_znode_name :: string
  block_numbers :: "(string \<times> int) list"
  commands :: "MutationCommand list"

text \<open>\<^verbatim>\<open>mutations_by_partition\<close> maps a partition to a \<^verbatim>\<open>std::map\<close> from mutation block
  number to a pointer to the entry in \<^verbatim>\<open>mutations\<close>. Entries are never changed after
  they are parsed, so the pointer is represented by the entry it points to.\<close>

type_synonym MutationsByPartition =
  "string \<rightharpoonup> (int \<times> ReplicatedMergeTreeMutationEntry) list"

subsection \<open>Log entries\<close>

datatype LogEntry_Type =
  GET_PART | MERGE_PARTS | DROP_RANGE | ATTACH_PART | CLEAR_COLUMN | MUTATE_PART

text \<open>What shouldExecuteLogEntry writes to \<^verbatim>\<open>out_postpone_reason\<close>. The source builds a
  sentence; the model keeps its kind and the values it is built from.\<close>

datatype postpone =
    SamePartBeingProcessed string
  | PartNotReadyYet string string
  | MergesCancelled string
  | SizeGreaterThanMaximum string "64 word" "64 word"

text \<open>The fields of ReplicatedMergeTreeLogEntry that the file reads or writes.
  \<open>postpone_reason = None\<close> is the empty string.\<close>

record LogEntry =
  znode_name :: string
  type :: LogEntry_Type
  new_part_name :: string
  parts_to_merge :: "string list"
  create_time :: int
  currently_executing :: bool
  num_tries :: "64 word"
  last_attempt_time :: int
  num_postponed :: "64 word"
  last_postpone_time :: int
  postpone_reason :: "postpone option"
  actual_new_part_name :: string

type_synonym LogEntryPtr = nat

text \<open>
  Modelled from the spec: LogEntry::parse belongs to the log-entry codec, which is not
  part of the file ("Log-entry wire format ... supplied by external codecs"). A node body
  is represented by what it decodes to; a parsed entry is a new object whose
  execution-state attributes have their initial values.
\<close>

record LogEntryData =
  data_type :: LogEntry_Type
  data_new_part_name :: string
  data_parts_to_merge :: "string list"
  data_create_time :: int

definition LogEntry_parse :: "LogEntryData \<Rightarrow> LogEntry" where
  "LogEntry_parse d =
     \<lparr>znode_name = [], type = data_type d, new_part_name = data_new_part_name d,
      parts_to_merge = data_parts_to_merge d, create_time = data_create_time d,
      currently_executing = False, num_tries = 0, last_attempt_time = 0,
      num_postponed = 0, last_postpone_time = 0, postpone_reason = None,
      actual_new_part_name = []\<rparr>"

subsection \<open>The set of virtual parts\<close>

text \<open>
  Modelled from the spec: ActiveDataPartSet is declared in ActiveDataPartSet.h, which is
  not part of the file. "Stores part infos; add(name) inserts the name and logically
  removes any already-present names strictly contained by it. getContainingPart(info)
  returns the stored part containing info or the sentinel none. getPartsCoveredBy(info)
  returns all stored parts contained in info." The set is a list of parsed infos with
  their names. MergeTreePartInfo::fromPartName, which parses a name for the table's
  format version, is not part of the file either: it is the parameter \<open>fromPartName\<close>
  of every function that parses a name.
\<close>

type_synonym ActiveDataPartSet = "(MergeTreePartInfo \<times> string) list"

definition ActiveDataPartSet_add ::
  "(string \<Rightarrow> MergeTreePartInfo) \<Rightarrow> string \<Rightarrow> ActiveDataPartSet \<Rightarrow> ActiveDataPartSet" where
  "ActiveDataPartSet_add fromPartName name' parts =
     (let part_info = fromPartName name'
      in filter (\<lambda>stored. \<not> contains part_info (fst stored)) parts @ [(part_info, name')])"

definition getContainingPart :: "ActiveDataPartSet \<Rightarrow> MergeTreePartInfo \<Rightarrow> MergeTreePartInfo option" where
  "getContainingPart parts part_info =
     map_option fst (find (\<lambda>stored. contains (fst stored) part_info) parts)"

definition getPartsCoveredBy :: "ActiveDataPartSet \<Rightarrow> MergeTreePartInfo \<Rightarrow> string list" where
  "getPartsCoveredBy parts part_info =
     map snd (filter (\<lambda>stored. contains part_info (fst stored)) parts)"

subsection \<open>The state of the queue\<close>

text \<open>The members of ReplicatedMergeTreeQueue that the modelled functions read or write,
  under the state mutex. \<open>entries\<close> holds every LogEntry object alive, in the queue or
  only referenced by a handle; a LogEntryPtr is its index.\<close>

record ReplicatedMergeTreeQueue =
  entries :: "LogEntry list"
  queue :: "LogEntryPtr list"
  inserts_by_time :: "LogEntryPtr list"
  virtual_parts :: ActiveDataPartSet
  next_virtual_parts :: ActiveDataPartSet
  future_parts :: "string set"
  current_inserts :: "string \<rightharpoonup> int list"
  mutations :: "ReplicatedMergeTreeMutationEntry list"
  mutations_by_partition :: MutationsByPartition
  last_quorum_part :: string
  inprogress_quorum_part :: string
  min_unprocessed_insert_time :: int
  max_processed_insert_time :: int

text \<open>A queue before \<^verbatim>\<open>initialize\<close>: every container empty, every scalar zero.\<close>

definition empty_queue :: ReplicatedMergeTreeQueue where
  "empty_queue =
     \<lparr>entries = [], queue = [], inserts_by_time = [], virtual_parts = [],
      next_virtual_parts = [], future_parts = {}, current_inserts = Map.empty,
      mutations = [], mutations_by_partition = Map.empty, last_quorum_part = [],
      inprogress_quorum_part = [], min_unprocessed_insert_time = 0,
      max_processed_insert_time = 0\<rparr>"

datatype error =
    LOGICAL_ERROR string
  | NO_NODE string
  | PAST_THE_END

subsection \<open>The mutation index\<close>

text \<open>\<^verbatim>\<open>part_info.version ? part_info.version : part_info.min_block\<close>\<close>

definition data_version :: "MergeTreePartInfo \<Rightarrow> int" where
  "data_version part_info =
     (if version part_info \<noteq> 0 then version part_info else min_block part_info)"

definition getCurrentMutationVersion :: "ReplicatedMergeTreeQueue \<Rightarrow> MergeTreePartInfo \<Rightarrow> int" where
  "getCurrentMutationVersion q part_info =
     (case mutations_by_partition q (partition_id part_info) of
        None \<Rightarrow> - 1
      | Some in_partition \<Rightarrow>
          (let it = upper_bound in_partition (data_version part_info)
           in if it = 0 then - 1 else fst (in_partition ! (it - 1))))"

text \<open>
  The loop \<^verbatim>\<open>for (auto it = begin; it != end; ++it) commands.insert(...)\<close> of
  getMutationCommands. The iterator only moves forward: when it reaches \<^verbatim>\<open>end()\<close> of the
  map without having met \<open>end\<close>, the source dereferences the past-the-end iterator, which
  is undefined behaviour; the model returns \<open>PAST_THE_END\<close> there.
\<close>

function collect_commands ::
  "(int \<times> ReplicatedMergeTreeMutationEntry) list \<Rightarrow> nat \<Rightarrow> nat \<Rightarrow> MutationCommand list
     \<Rightarrow> error + MutationCommand list" where
  "collect_commands m it end' acc =
     (if it = end' then Inr acc
      else if it \<ge> length m then Inl PAST_THE_END
      else collect_commands m (Suc it) end' (acc @ commands (snd (m ! it))))"
  by pat_completeness auto
termination
  by (relation "measure (\<lambda>(m, it, e, acc). length m - it)") auto

text \<open>The function is \<^verbatim>\<open>const\<close>: it returns a value or throws, and the queue is the
  same after the call.\<close>

definition getMutationCommands ::
  "ReplicatedMergeTreeQueue \<Rightarrow> MergeTreePartInfo \<Rightarrow> int \<Rightarrow> error + MutationCommand list" where
  "getMutationCommands q part_info desired_mutation_version =
     (case mutations_by_partition q (partition_id part_info) of
        None \<Rightarrow> Inl (LOGICAL_ERROR ''There are no mutations for partition ID'')
      | Some in_partition \<Rightarrow>
          (let begin' = upper_bound in_partition (data_version part_info);
               end' = map_find in_partition desired_mutation_version
           in if end' = length in_partition
              then Inl (LOGICAL_ERROR ''Mutation with version not found in partition ID'')
              else collect_commands in_partition begin' (Suc end') []))"

subsection \<open>canMergeParts\<close>

datatype MergeTreeDataPartState = Temporary | PreCommitted | Committed | Outdated | Deleting

text \<open>The members of MergeTreeDataPart that the file reads.\<close>

record MergeTreeDataPart =
  name :: string
  info :: MergeTreePartInfo
  state :: MergeTreeDataPartState
  bytes_on_disk :: "64 word"

text \<open>What canMergeParts writes to \<^verbatim>\<open>out_reason\<close> when it returns false.\<close>

datatype merge_refusal =
    MergeToItself string
  | DifferentPartitions string string
  | NotReadFromLogYet string
  | MergeAlreadyAssigned string
  | LastQuorumPart string
  | InprogressQuorumPart string
  | BlockStillInserted int string string
  | PartsNotReady nat string string string string
  | MutationVersionsDiffer string string int int

text \<open>The body of the loop \<^verbatim>\<open>for (const DataPartPtr & part : {left, right})\<close>.\<close>

definition check_part :: "ReplicatedMergeTreeQueue \<Rightarrow> MergeTreeDataPart \<Rightarrow> merge_refusal option" where
  "check_part q part =
     (case getContainingPart (virtual_parts q) (info part) of
        None \<Rightarrow> Some (NotReadFromLogYet (name part))
      | Some containing_part \<Rightarrow>
          if containing_part \<noteq> info part then Some (MergeAlreadyAssigned (name part))
          else if name part = last_quorum_part q then Some (LastQuorumPart (name part))
          else if name part = inprogress_quorum_part q then Some (InprogressQuorumPart (name part))
          else None)"

text \<open>The block \<^verbatim>\<open>if (left_max_block + 1 < right_min_block) { ... }\<close>, entered with the
  bounds already swapped.\<close>

definition check_gap ::
  "ReplicatedMergeTreeQueue \<Rightarrow> MergeTreeDataPart \<Rightarrow> MergeTreeDataPart \<Rightarrow> int \<Rightarrow> int
     \<Rightarrow> merge_refusal option" where
  "check_gap q left right left_max_block right_min_block =
     (case (case current_inserts q (partition_id (info left)) of
              None \<Rightarrow> None
            | Some ephemeral_block_numbers \<Rightarrow>
                (case set_upper_bound ephemeral_block_numbers left_max_block of
                   None \<Rightarrow> None
                 | Some left_eph \<Rightarrow>
                     if left_eph < right_min_block
                     then Some (BlockStillInserted left_eph (name left) (name right))
                     else None)) of
        Some refusal \<Rightarrow> Some refusal
      | None \<Rightarrow>
          (let gap_part_info = MergeTreePartInfo_make (partition_id (info left))
                 (left_max_block + 1) (right_min_block - 1) 999999999;
               covered = getPartsCoveredBy (next_virtual_parts q) gap_part_info
           in if covered \<noteq> []
              then Some (PartsNotReady (length covered) (hd covered) (last covered)
                           (name left) (name right))
              else None))"

text \<open>canMergeParts with its out-parameter: \<open>None\<close> is \<^verbatim>\<open>return true\<close>, \<open>Some r\<close> is
  \<^verbatim>\<open>return false\<close> with the reason \<open>r\<close>.\<close>

definition canMergeParts_reason ::
  "ReplicatedMergeTreeQueue \<Rightarrow> MergeTreeDataPart \<Rightarrow> MergeTreeDataPart \<Rightarrow> merge_refusal option" where
  "canMergeParts_reason q left right =
     (if name left = name right then Some (MergeToItself (name left))
      else if partition_id (info left) \<noteq> partition_id (info right)
      then Some (DifferentPartitions (name left) (name right))
      else case check_part q left of Some r \<Rightarrow> Some r | None \<Rightarrow>
           case check_part q right of Some r \<Rightarrow> Some r | None \<Rightarrow>
      (let left_max_block0 = max_block (info left);
           right_min_block0 = min_block (info right);
           left_max_block =
             (if left_max_block0 > right_min_block0 then right_min_block0 else left_max_block0);
           right_min_block =
             (if left_max_block0 > right_min_block0 then left_max_block0 else right_min_block0)
       in case (if left_max_block + 1 < right_min_block
                then check_gap q left right left_max_block right_min_block else None) of
            Some r \<Rightarrow> Some r
          | None \<Rightarrow>
              (let left_mutation = getCurrentMutationVersion q (info left);
                   right_mutation = getCurrentMutationVersion q (info right)
               in if left_mutation \<noteq> right_mutation
                  then Some (MutationVersionsDiffer (name left) (name right)
                               left_mutation right_mutation)
                  else None)))"

definition canMergeParts ::
  "ReplicatedMergeTreeQueue \<Rightarrow> MergeTreeDataPart \<Rightarrow> MergeTreeDataPart \<Rightarrow> bool" where
  "canMergeParts q left right \<longleftrightarrow> canMergeParts_reason q left right = None"

subsection \<open>Inserting entries\<close>

text \<open>
  Modelled from the spec: the comparator of \<^verbatim>\<open>inserts_by_time\<close> is declared in the header,
  which is not part of the file. "inserts_by_time: ordered set of GET_PART entries by
  create_time, tiebroken by znode_name."
\<close>

definition ByTime :: "LogEntry \<Rightarrow> LogEntry \<Rightarrow> bool" where
  "ByTime lhs rhs \<longleftrightarrow>
     create_time lhs < create_time rhs
     \<or> (create_time lhs = create_time rhs \<and> znode_name lhs < znode_name rhs)"

text \<open>\<^verbatim>\<open>std::set<LogEntryPtr, ByTime>::insert\<close>: in order, and not at all when an equivalent
  element is there.\<close>

fun ByTime_insert :: "LogEntry list \<Rightarrow> LogEntryPtr \<Rightarrow> LogEntryPtr list \<Rightarrow> LogEntryPtr list" where
  "ByTime_insert es p [] = [p]"
| "ByTime_insert es p (x # xs) =
     (if ByTime (es ! p) (es ! x) then p # x # xs
      else if ByTime (es ! x) (es ! p) then x # ByTime_insert es p xs
      else x # xs)"

text \<open>\<^verbatim>\<open>std::set<LogEntryPtr, ByTime>::erase(key)\<close>: removes the element equivalent to the key.\<close>

definition ByTime_erase :: "LogEntry list \<Rightarrow> LogEntryPtr \<Rightarrow> LogEntryPtr list \<Rightarrow> LogEntryPtr list" where
  "ByTime_erase es p xs = filter (\<lambda>x. ByTime (es ! p) (es ! x) \<or> ByTime (es ! x) (es ! p)) xs"

text \<open>insertUnlocked. The entry is the object \<open>entry\<close> points to; the out-parameter
  \<^verbatim>\<open>min_unprocessed_insert_time_changed\<close> is passed in and returned.\<close>

definition insertUnlocked ::
  "(string \<Rightarrow> MergeTreePartInfo) \<Rightarrow> LogEntryPtr \<Rightarrow> int option \<Rightarrow> ReplicatedMergeTreeQueue
     \<Rightarrow> int option \<times> ReplicatedMergeTreeQueue" where
  "insertUnlocked fromPartName entry min_unprocessed_insert_time_changed q =
     (let e = entries q ! entry;
          q1 = q\<lparr>next_virtual_parts :=
                   ActiveDataPartSet_add fromPartName (new_part_name e) (next_virtual_parts q)\<rparr>;
          q2 = (if type e \<noteq> DROP_RANGE then q1\<lparr>queue := queue q1 @ [entry]\<rparr>
                else q1\<lparr>queue := entry # queue q1\<rparr>)
      in if type e = GET_PART
         then (let q3 = q2\<lparr>inserts_by_time := ByTime_insert (entries q2) entry (inserts_by_time q2)\<rparr>
               in if create_time e \<noteq> 0
                     \<and> (min_unprocessed_insert_time q3 = 0
                        \<or> create_time e < min_unprocessed_insert_time q3)
                  then (Some (create_time e), q3\<lparr>min_unprocessed_insert_time := create_time e\<rparr>)
                  else (min_unprocessed_insert_time_changed, q3))
         else (min_unprocessed_insert_time_changed, q2))"

subsection \<open>load\<close>

text \<open>
  Modelled from the spec: the coordinator client (\<^verbatim>\<open>zkutil::ZooKeeper\<close>) is an external
  collaborator. The coordinator is what load and updateMutations read of it: the
  children of \<^verbatim>\<open><replica>/queue\<close> and of \<^verbatim>\<open><shared>/mutations\<close>, each with its body.
  getChildren returns the names; asyncGet of a name returns its body, and throws when
  the node is not there. What the file writes to the coordinator
  (updateTimesInZooKeeper, tryRemove) does not change the queue and is left out.
\<close>

record ReplicatedMergeTreeMutationData =
  data_block_numbers :: "(string \<times> int) list"
  data_commands :: "MutationCommand list"

record ZooKeeper =
  zk_queue :: "(string \<times> LogEntryData) list"
  zk_mutations :: "(string \<times> ReplicatedMergeTreeMutationData) list"

text \<open>The loop \<^verbatim>\<open>for (auto & future : futures)\<close> of load, over the children paired with
  their futures. \<^verbatim>\<open>future.second.get()\<close> throws when the node is not there, and the
  entries inserted before stay. The parsed entry is a new object, at the next free
  address.\<close>

fun load_entries ::
  "(string \<times> LogEntryData) list \<Rightarrow> (string \<Rightarrow> MergeTreePartInfo) \<Rightarrow> string list
     \<Rightarrow> bool \<times> int option \<times> ReplicatedMergeTreeQueue
     \<Rightarrow> error option \<times> bool \<times> int option \<times> ReplicatedMergeTreeQueue" where
  "load_entries nodes fromPartName [] acc = (None, acc)"
| "load_entries nodes fromPartName (child # children) (updated, changed, q) =
     (case map_of nodes child of
        None \<Rightarrow> (Some (NO_NODE child), updated, changed, q)
      | Some body \<Rightarrow>
          (let entry = length (entries q);
               q1 = q\<lparr>entries := entries q @ [(LogEntry_parse body)\<lparr>znode_name := child\<rparr>]\<rparr>;
               (changed', q2) = insertUnlocked fromPartName entry changed q1
           in load_entries nodes fromPartName children (True, changed', q2)))"

text \<open>load returns \<open>updated\<close> with the value of \<^verbatim>\<open>min_unprocessed_insert_time_changed\<close>
  that it hands to updateTimesInZooKeeper, or the exception, and the queue.\<close>

definition load ::
  "(string \<Rightarrow> MergeTreePartInfo) \<Rightarrow> ZooKeeper \<Rightarrow> ReplicatedMergeTreeQueue
     \<Rightarrow> (error + bool \<times> int option) \<times> ReplicatedMergeTreeQueue" where
  "load fromPartName zookeeper q =
     (let already_loaded_paths = set (map (\<lambda>log_entry. znode_name (entries q ! log_entry)) (queue q));
          children = map fst (zk_queue zookeeper);
          children = sort (filter (\<lambda>path. path \<notin> already_loaded_paths) children);
          (thrown, updated, changed, q') =
             load_entries (zk_queue zookeeper) fromPartName children (False, None, q)
      in case thrown of
           Some e \<Rightarrow> (Inl e, q')
         | None \<Rightarrow> (Inr (updated, changed), q'))"

subsection \<open>updateMutations\<close>

text \<open>The loop over \<^verbatim>\<open>it->block_numbers\<close> that removes an obsolete mutation from
  \<^verbatim>\<open>mutations_by_partition\<close>. \<^verbatim>\<open>mutations_by_partition[kv.first]\<close> creates an empty map
  for a partition that has none.\<close>

fun erase_block_numbers :: "(string \<times> int) list \<Rightarrow> MutationsByPartition \<Rightarrow> MutationsByPartition" where
  "erase_block_numbers [] by_partition = by_partition"
| "erase_block_numbers (kv # kvs) by_partition =
     (let in_partition = (case by_partition (fst kv) of None \<Rightarrow> [] | Some m \<Rightarrow> m);
          in_partition = map_erase (snd kv) in_partition
      in erase_block_numbers kvs
           (if in_partition = [] then by_partition(fst kv := None)
            else by_partition(fst kv \<mapsto> in_partition)))"

text \<open>The loop \<^verbatim>\<open>for (auto it = mutations.begin(); it != mutations.end(); )\<close> that drops
  the obsolete mutations from the front and stops at the first one that is not.\<close>

fun remove_obsolete ::
  "string \<Rightarrow> ReplicatedMergeTreeMutationEntry list \<Rightarrow> MutationsByPartition
     \<Rightarrow> ReplicatedMergeTreeMutationEntry list \<times> MutationsByPartition" where
  "remove_obsolete front [] by_partition = ([], by_partition)"
| "remove_obsolete front (it # rest) by_partition =
     (if mutation_znode_name it < front
      then remove_obsolete front rest (erase_block_numbers (block_numbers it) by_partition)
      else (it # rest, by_partition))"

text \<open>The loop from \<^verbatim>\<open>entries_in_zk.rbegin()\<close> that collects the names greater than the
  last local one and stops at the first that is not, followed by \<^verbatim>\<open>std::reverse\<close>.\<close>

definition newer_entries :: "string \<Rightarrow> string list \<Rightarrow> string list" where
  "newer_entries back entries_in_zk = rev (takeWhile (\<lambda>it. it > back) (rev entries_in_zk))"

text \<open>
  Modelled from the spec: ReplicatedMergeTreeMutationEntry::parse belongs to the
  mutation-entry codec, which is not part of the file. The body is represented by what
  it decodes to, and the second argument is the znode name of the entry.
\<close>

definition MutationEntry_parse ::
  "ReplicatedMergeTreeMutationData \<Rightarrow> string \<Rightarrow> ReplicatedMergeTreeMutationEntry" where
  "MutationEntry_parse d znode_name' =
     \<lparr>mutation_znode_name = znode_name', block_numbers = data_block_numbers d,
      commands = data_commands d\<rparr>"

text \<open>The loop \<^verbatim>\<open>for (const auto & kv : mutation.block_numbers)\<close> that indexes a new
  mutation.\<close>

fun index_mutation ::
  "ReplicatedMergeTreeMutationEntry \<Rightarrow> (string \<times> int) list \<Rightarrow> MutationsByPartition
     \<Rightarrow> MutationsByPartition" where
  "index_mutation mutation [] by_partition = by_partition"
| "index_mutation mutation (kv # kvs) by_partition =
     index_mutation mutation kvs
       (by_partition(fst kv \<mapsto>
          map_emplace (snd kv) mutation
            (case by_partition (fst kv) of None \<Rightarrow> [] | Some m \<Rightarrow> m)))"

fun index_mutations ::
  "ReplicatedMergeTreeMutationEntry list \<Rightarrow> MutationsByPartition \<Rightarrow> MutationsByPartition" where
  "index_mutations [] by_partition = by_partition"
| "index_mutations (mutation # new_mutations) by_partition =
     index_mutations new_mutations (index_mutation mutation (block_numbers mutation) by_partition)"

text \<open>The futures of updateMutations: asyncGet for each name, then \<^verbatim>\<open>get()\<close> on each in
  order; the first missing node throws.\<close>

fun get_all :: "(string \<times> 'b) list \<Rightarrow> string list \<Rightarrow> error + (string \<times> 'b) list" where
  "get_all nodes [] = Inr []"
| "get_all nodes (child # children) =
     (case map_of nodes child of
        None \<Rightarrow> Inl (NO_NODE child)
      | Some body \<Rightarrow>
          (case get_all nodes children of
             Inl e \<Rightarrow> Inl e
           | Inr futures \<Rightarrow> Inr ((child, body) # futures)))"

text \<open>The first locked block of updateMutations: it purges the local state and returns
  \<open>entries_to_load\<close>. \<open>entries_in_zk\<close> is already sorted.\<close>

definition purge_and_select ::
  "string list \<Rightarrow> ReplicatedMergeTreeQueue \<Rightarrow> string list \<times> ReplicatedMergeTreeQueue" where
  "purge_and_select entries_in_zk q =
     (let q1 = (if entries_in_zk = []
                then q\<lparr>mutations_by_partition := Map.empty, mutations := []\<rparr>
                else (let (ms, by_partition) =
                            remove_obsolete (hd entries_in_zk) (mutations q) (mutations_by_partition q)
                      in q\<lparr>mutations_by_partition := by_partition, mutations := ms\<rparr>));
          entries_to_load =
            (if mutations q1 = [] then entries_in_zk
             else newer_entries (mutation_znode_name (last (mutations q1))) entries_in_zk)
      in (entries_to_load, q1))"

text \<open>updateMutations returns \<^verbatim>\<open>!entries_to_load.empty()\<close>, or the exception of a get, and
  the queue. A get that throws leaves the queue as the first locked block made it.\<close>

definition updateMutations ::
  "ZooKeeper \<Rightarrow> ReplicatedMergeTreeQueue \<Rightarrow> (error + bool) \<times> ReplicatedMergeTreeQueue" where
  "updateMutations zookeeper q =
     (let entries_in_zk = sort (map fst (zk_mutations zookeeper));
          (entries_to_load, q1) = purge_and_select entries_in_zk q
      in if entries_to_load \<noteq> []
         then (case get_all (zk_mutations zookeeper) entries_to_load of
                 Inl e \<Rightarrow> (Inl e, q1)
               | Inr futures \<Rightarrow>
                   (let new_mutations = map (\<lambda>future. MutationEntry_parse (snd future) (fst future)) futures
                    in (Inr True,
                        q1\<lparr>mutations_by_partition := index_mutations new_mutations (mutations_by_partition q1),
                           mutations := mutations q1 @ new_mutations\<rparr>)))
         else (Inr False, q1))"

subsection \<open>shouldExecuteLogEntry\<close>

text \<open>isNotCoveredByFuturePartsImpl returns its result and what it writes to
  \<^verbatim>\<open>out_reason\<close>: \<open>None\<close> when it leaves the string as it is.\<close>

definition isNotCoveredByFuturePartsImpl ::
  "(string \<Rightarrow> MergeTreePartInfo) \<Rightarrow> ReplicatedMergeTreeQueue \<Rightarrow> string \<Rightarrow> bool \<times> postpone option" where
  "isNotCoveredByFuturePartsImpl fromPartName q new_part_name' =
     (if new_part_name' \<in> future_parts q
      then (False, Some (SamePartBeingProcessed new_part_name'))
      else (let result_part = fromPartName new_part_name'
            in if \<exists>future_part_name \<in> future_parts q.
                    contains (fromPartName future_part_name) result_part
               then (False, None)
               else (True, None)))"

text \<open>getConflictsForClearColumnCommand: the queue elements that conflict, in queue
  order. An element of type CLEAR_COLUMN is never of one of the four other types, so the
  two \<^verbatim>\<open>if\<close>s of the source add an element at most once.\<close>

definition getConflictsForClearColumnCommand ::
  "(string \<Rightarrow> MergeTreePartInfo) \<Rightarrow> ReplicatedMergeTreeQueue \<Rightarrow> LogEntry \<Rightarrow> LogEntryPtr list" where
  "getConflictsForClearColumnCommand fromPartName q entry =
     filter (\<lambda>p. let elem = entries q ! p
                 in currently_executing elem \<and> znode_name elem \<noteq> znode_name entry
                    \<and> ((type elem \<in> {MERGE_PARTS, GET_PART, MUTATE_PART, ATTACH_PART}
                         \<and> contains (fromPartName (new_part_name entry)) (fromPartName (new_part_name elem)))
                       \<or> (type elem = CLEAR_COLUMN
                          \<and> partition_id (fromPartName (new_part_name entry))
                              = partition_id (fromPartName (new_part_name elem)))))
       (queue q)"

text \<open>
  Modelled from the spec: MergeTreeData and MergeTreeDataMerger are external
  collaborators ("the on-disk part store, the merge executor and its concurrency-limit
  blocker"). The part store is the map from names to the parts it holds and the setting
  the file reads; getPartIfExists returns the part of that name when its state is one of
  the given ones. The merge executor is its cancel flag and the value that
  getMaxPartsSizeForMerge returns.
\<close>

record MergeTreeData =
  data_parts :: "string \<rightharpoonup> MergeTreeDataPart"
  max_bytes_to_merge_at_max_space_in_pool :: "64 word"

definition getPartIfExists ::
  "MergeTreeData \<Rightarrow> string \<Rightarrow> MergeTreeDataPartState set \<Rightarrow> MergeTreeDataPart option" where
  "getPartIfExists data part_name valid_states =
     (case data_parts data part_name of
        None \<Rightarrow> None
      | Some part \<Rightarrow> if state part \<in> valid_states then Some part else None)"

record MergeTreeDataMerger =
  isCancelled :: bool
  getMaxPartsSizeForMerge :: "64 word"

text \<open>The loop \<^verbatim>\<open>for (const auto & name : entry.parts_to_merge)\<close>: \<open>Inl name\<close> when it
  returns false at \<open>name\<close>, \<open>Inr sum_parts_size_in_bytes\<close> when it runs to the end.\<close>

fun sum_parts_size ::
  "ReplicatedMergeTreeQueue \<Rightarrow> MergeTreeData \<Rightarrow> string list \<Rightarrow> 64 word \<Rightarrow> string + 64 word" where
  "sum_parts_size q data [] sum_parts_size_in_bytes = Inr sum_parts_size_in_bytes"
| "sum_parts_size q data (name' # names) sum_parts_size_in_bytes =
     (if name' \<in> future_parts q then Inl name'
      else case getPartIfExists data name' {PreCommitted, Committed, Outdated} of
             Some part \<Rightarrow> sum_parts_size q data names (sum_parts_size_in_bytes + bytes_on_disk part)
           | None \<Rightarrow> sum_parts_size q data names sum_parts_size_in_bytes)"

text \<open>The second block of shouldExecuteLogEntry, for MERGE_PARTS and MUTATE_PART:
  \<open>Some r\<close> when it returns false with the reason \<open>r\<close>.\<close>

definition check_merge ::
  "ReplicatedMergeTreeQueue \<Rightarrow> MergeTreeDataMerger \<Rightarrow> MergeTreeData \<Rightarrow> LogEntry \<Rightarrow> postpone option" where
  "check_merge q merger data entry =
     (case sum_parts_size q data (parts_to_merge entry) 0 of
        Inl name' \<Rightarrow> Some (PartNotReadyYet (new_part_name entry) name')
      | Inr sum_parts_size_in_bytes \<Rightarrow>
          if isCancelled merger then Some (MergesCancelled (new_part_name entry))
          else (let max_parts_size_for_merge = getMaxPartsSizeForMerge merger
                in if max_parts_size_for_merge \<noteq> max_bytes_to_merge_at_max_space_in_pool data
                      \<and> sum_parts_size_in_bytes > max_parts_size_for_merge
                   then Some (SizeGreaterThanMaximum (new_part_name entry)
                                sum_parts_size_in_bytes max_parts_size_for_merge)
                   else None))"

text \<open>shouldExecuteLogEntry returns its result and what it writes to
  \<^verbatim>\<open>out_postpone_reason\<close>: \<open>None\<close> when it leaves the string as it is.\<close>

definition shouldExecuteLogEntry ::
  "(string \<Rightarrow> MergeTreePartInfo) \<Rightarrow> ReplicatedMergeTreeQueue \<Rightarrow> LogEntry \<Rightarrow> MergeTreeDataMerger
     \<Rightarrow> MergeTreeData \<Rightarrow> bool \<times> postpone option" where
  "shouldExecuteLogEntry fromPartName q entry merger data =
     (let covered =
            (if type entry \<in> {MERGE_PARTS, GET_PART, ATTACH_PART, MUTATE_PART}
             then isNotCoveredByFuturePartsImpl fromPartName q (new_part_name entry)
             else (True, None))
      in if \<not> fst covered then (False, snd covered)
         else case (if type entry = MERGE_PARTS \<or> type entry = MUTATE_PART
                    then check_merge q merger data entry else None) of
                Some reason \<Rightarrow> (False, Some reason)
              | None \<Rightarrow>
                  if type entry = CLEAR_COLUMN
                     \<and> getConflictsForClearColumnCommand fromPartName q entry \<noteq> []
                  then (False, None)
                  else (True, None))"

subsection \<open>The executing-entry handle\<close>

text \<open>The constructor of CurrentlyExecuting. \<open>now\<close> is \<^verbatim>\<open>time(nullptr)\<close>. The entry is
  changed before the insertion into \<^verbatim>\<open>future_parts\<close> is tried, so it stays changed when
  the constructor throws.\<close>

definition CurrentlyExecuting ::
  "LogEntryPtr \<Rightarrow> int \<Rightarrow> ReplicatedMergeTreeQueue \<Rightarrow> error option \<times> ReplicatedMergeTreeQueue" where
  "CurrentlyExecuting entry now q =
     (let e = entries q ! entry;
          q1 = q\<lparr>entries := (entries q)[entry :=
                  e\<lparr>currently_executing := True, num_tries := num_tries e + 1,
                    last_attempt_time := now\<rparr>]\<rparr>
      in if new_part_name e \<in> future_parts q1
         then (Some (LOGICAL_ERROR ''Tagging already tagged future part''), q1)
         else (None, q1\<lparr>future_parts := insert (new_part_name e) (future_parts q1)\<rparr>))"

definition setActualPartName ::
  "LogEntryPtr \<Rightarrow> string \<Rightarrow> ReplicatedMergeTreeQueue \<Rightarrow> error option \<times> ReplicatedMergeTreeQueue" where
  "setActualPartName entry actual_part_name q =
     (let e = entries q ! entry
      in if actual_new_part_name e \<noteq> []
         then (Some (LOGICAL_ERROR ''Entry actual part is not empty yet''), q)
         else (let q1 = q\<lparr>entries := (entries q)[entry := e\<lparr>actual_new_part_name := actual_part_name\<rparr>]\<rparr>
               in if actual_part_name = new_part_name e then (None, q1)
                  else if actual_part_name \<in> future_parts q1
                  then (Some (LOGICAL_ERROR ''Attaching already existing future part''), q1)
                  else (None, q1\<lparr>future_parts := insert actual_part_name (future_parts q1)\<rparr>)))"

text \<open>The destructor of CurrentlyExecuting. An erase that finds nothing is only logged.\<close>

definition CurrentlyExecuting_destroy ::
  "LogEntryPtr \<Rightarrow> ReplicatedMergeTreeQueue \<Rightarrow> ReplicatedMergeTreeQueue" where
  "CurrentlyExecuting_destroy entry q =
     (let e = entries q ! entry;
          q1 = q\<lparr>entries := (entries q)[entry := e\<lparr>currently_executing := False\<rparr>],
                 future_parts := future_parts q - {new_part_name e}\<rparr>
      in if actual_new_part_name e \<noteq> []
         then (let q2 = (if actual_new_part_name e \<noteq> new_part_name e
                         then q1\<lparr>future_parts := future_parts q1 - {actual_new_part_name e}\<rparr>
                         else q1)
               in q2\<lparr>entries := (entries q2)[entry := (entries q2 ! entry)\<lparr>actual_new_part_name := []\<rparr>]\<rparr>)
         else q1)"

subsection \<open>selectEntryToProcess\<close>

text \<open>
  The loop of selectEntryToProcess, with the iterator as a position in the queue. It
  skips the executing entries; for the others it calls shouldExecuteLogEntry, which
  writes its reason to the \<^verbatim>\<open>postpone_reason\<close> of the entry; the first entry that should
  be executed is spliced to the end of the queue and returned, and the ones before it
  are counted as postponed. \<open>now\<close> is \<^verbatim>\<open>time(nullptr)\<close>.
\<close>

function select_loop ::
  "(string \<Rightarrow> MergeTreePartInfo) \<Rightarrow> MergeTreeDataMerger \<Rightarrow> MergeTreeData \<Rightarrow> int
     \<Rightarrow> nat \<Rightarrow> ReplicatedMergeTreeQueue \<Rightarrow> LogEntryPtr option \<times> ReplicatedMergeTreeQueue" where
  "select_loop fromPartName merger data now it q =
     (if it \<ge> length (queue q) then (None, q)
      else (let p = queue q ! it; e = entries q ! p
            in if currently_executing e
               then select_loop fromPartName merger data now (Suc it) q
               else (let (should, reason) = shouldExecuteLogEntry fromPartName q e merger data;
                         q1 = (case reason of
                                 None \<Rightarrow> q
                               | Some r \<Rightarrow> q\<lparr>entries := (entries q)[p := e\<lparr>postpone_reason := Some r\<rparr>]\<rparr>)
                     in if should
                        then (Some p, q1\<lparr>queue := take it (queue q1) @ drop (Suc it) (queue q1) @ [p]\<rparr>)
                        else select_loop fromPartName merger data now (Suc it)
                               (q1\<lparr>entries := (entries q1)[p :=
                                      (entries q1 ! p)\<lparr>num_postponed := num_postponed (entries q1 ! p) + 1,
                                                        last_postpone_time := now\<rparr>]\<rparr>))))"
  by pat_completeness auto
termination
  by (relation "measure (\<lambda>(f, m, d, n, it, q). length (queue q) - it)")
     (auto split: option.splits)

declare select_loop.simps [simp del]

text \<open>selectEntryToProcess returns the selected entry, whose handle it has constructed, or
  nothing, or the exception of the constructor, and the queue.\<close>

definition selectEntryToProcess ::
  "(string \<Rightarrow> MergeTreePartInfo) \<Rightarrow> MergeTreeDataMerger \<Rightarrow> MergeTreeData \<Rightarrow> int
     \<Rightarrow> ReplicatedMergeTreeQueue \<Rightarrow> (error + LogEntryPtr option) \<times> ReplicatedMergeTreeQueue" where
  "selectEntryToProcess fromPartName merger data now q =
     (case select_loop fromPartName merger data now 0 q of
        (None, q1) \<Rightarrow> (Inr None, q1)
      | (Some entry, q1) \<Rightarrow>
          (case CurrentlyExecuting entry now q1 of
             (Some e, q2) \<Rightarrow> (Inl e, q2)
           | (None, q2) \<Rightarrow> (Inr (Some entry), q2)))"

subsection \<open>Removing an entry\<close>

text \<open>The loop of \<^verbatim>\<open>remove(zookeeper, entry)\<close> that scans the queue from the end and
  erases the first element equal to the pointer.\<close>

definition erase_from_back :: "LogEntryPtr \<Rightarrow> LogEntryPtr list \<Rightarrow> LogEntryPtr list" where
  "erase_from_back entry xs = rev (remove1 entry (rev xs))"

text \<open>updateTimesOnRemoval returns the two out-parameters with the queue.\<close>

definition updateTimesOnRemoval ::
  "LogEntryPtr \<Rightarrow> int option \<Rightarrow> int option \<Rightarrow> ReplicatedMergeTreeQueue
     \<Rightarrow> int option \<times> int option \<times> ReplicatedMergeTreeQueue" where
  "updateTimesOnRemoval entry min_changed max_changed q =
     (let e = entries q ! entry
      in if type e \<noteq> GET_PART then (min_changed, max_changed, q)
         else (let q1 = q\<lparr>inserts_by_time := ByTime_erase (entries q) entry (inserts_by_time q)\<rparr>;
                   (min_changed', q2) =
                     (if inserts_by_time q1 = []
                      then (Some 0, q1\<lparr>min_unprocessed_insert_time := 0\<rparr>)
                      else if create_time (entries q1 ! hd (inserts_by_time q1)) > min_unprocessed_insert_time q1
                      then (Some (create_time (entries q1 ! hd (inserts_by_time q1))),
                            q1\<lparr>min_unprocessed_insert_time := create_time (entries q1 ! hd (inserts_by_time q1))\<rparr>)
                      else (min_changed, q1))
               in if create_time e > max_processed_insert_time q2
                  then (min_changed', Some (create_time e), q2\<lparr>max_processed_insert_time := create_time e\<rparr>)
                  else (min_changed', max_changed, q2)))"

text \<open>The locked block of \<^verbatim>\<open>remove(zookeeper, entry)\<close>; the calls to the coordinator
  before and after it do not touch the queue.\<close>

definition remove_entry ::
  "LogEntryPtr \<Rightarrow> ReplicatedMergeTreeQueue \<Rightarrow> int option \<times> int option \<times> ReplicatedMergeTreeQueue" where
  "remove_entry entry q =
     updateTimesOnRemoval entry None None (q\<lparr>queue := erase_from_back entry (queue q)\<rparr>)"

subsection \<open>addFuturePartIfNotCoveredByThem\<close>

text \<open>addFuturePartIfNotCoveredByThem returns its result, or the exception of
  setActualPartName, and the queue.\<close>

definition addFuturePartIfNotCoveredByThem ::
  "(string \<Rightarrow> MergeTreePartInfo) \<Rightarrow> string \<Rightarrow> LogEntryPtr \<Rightarrow> ReplicatedMergeTreeQueue
     \<Rightarrow> (error + bool) \<times> ReplicatedMergeTreeQueue" where
  "addFuturePartIfNotCoveredByThem fromPartName part_name entry q =
     (if fst (isNotCoveredByFuturePartsImpl fromPartName q part_name)
      then (case setActualPartName entry part_name q of
              (Some e, q') \<Rightarrow> (Inl e, q')
            | (None, q') \<Rightarrow> (Inr True, q'))
      else (Inr False, q))"

subsection \<open>Sequences of operations\<close>

text \<open>
  The operations that change \<^verbatim>\<open>queue\<close>, \<^verbatim>\<open>future_parts\<close> and the execution state of the
  entries, as the callers of the file make them. The handles alive are kept beside the
  queue, each as the pointer to its entry.
  \<^item> \<open>Insert d n\<close>: an entry parsed from the body \<open>d\<close> gets the znode name \<open>n\<close> and is
    inserted, as \<^verbatim>\<open>load\<close>, \<^verbatim>\<open>pullLogsToQueue\<close> and \<^verbatim>\<open>insert\<close> do.
  \<^item> \<open>Select merger data now\<close>: selectEntryToProcess, which constructs the handle of the
    entry it selects.
  \<^item> \<open>AddFuturePart p a\<close>: the executor of the entry \<open>p\<close>, which holds its handle, calls
    addFuturePartIfNotCoveredByThem with the name \<open>a\<close> of a part (not the empty string).
  \<^item> \<open>Destroy p\<close>: the handle of \<open>p\<close> is destroyed.
  \<^item> \<open>Remove p\<close>: \<^verbatim>\<open>remove(zookeeper, entry)\<close>, which processEntry calls while the handle
    is still alive.
  An operation that has no object to be called on is \<open>NOT_CALLABLE\<close>; a run stops at the
  first operation that is not callable or throws.
\<close>

datatype queue_op =
    Insert LogEntryData string
  | Select MergeTreeDataMerger MergeTreeData int
  | AddFuturePart LogEntryPtr string
  | Destroy LogEntryPtr
  | Remove LogEntryPtr

datatype stopped = NOT_CALLABLE | Thrown error

type_synonym world = "ReplicatedMergeTreeQueue \<times> LogEntryPtr set"

fun exec :: "(string \<Rightarrow> MergeTreePartInfo) \<Rightarrow> queue_op \<Rightarrow> world \<Rightarrow> stopped + world" where
  "exec fromPartName (Insert d n) (q, handles) =
     (let entry = length (entries q);
          q1 = q\<lparr>entries := entries q @ [(LogEntry_parse d)\<lparr>znode_name := n\<rparr>]\<rparr>
      in Inr (snd (insertUnlocked fromPartName entry None q1), handles))"
| "exec fromPartName (Select merger data now) (q, handles) =
     (case selectEntryToProcess fromPartName merger data now q of
        (Inl e, q') \<Rightarrow> Inl (Thrown e)
      | (Inr None, q') \<Rightarrow> Inr (q', handles)
      | (Inr (Some p), q') \<Rightarrow> Inr (q', insert p handles))"
| "exec fromPartName (AddFuturePart p a) (q, handles) =
     (if p \<in> handles \<and> a \<noteq> []
      then (case addFuturePartIfNotCoveredByThem fromPartName a p q of
              (Inl e, q') \<Rightarrow> Inl (Thrown e)
            | (Inr b, q') \<Rightarrow> Inr (q', handles))
      else Inl NOT_CALLABLE)"
| "exec fromPartName (Destroy p) (q, handles) =
     (if p \<in> handles then Inr (CurrentlyExecuting_destroy p q, handles - {p})
      else Inl NOT_CALLABLE)"
| "exec fromPartName (Remove p) (q, handles) =
     (if p < length (entries q) then Inr (snd (snd (remove_entry p q)), handles)
      else Inl NOT_CALLABLE)"

fun run :: "(string \<Rightarrow> MergeTreePartInfo) \<Rightarrow> queue_op list \<Rightarrow> world \<Rightarrow> stopped + world" where
  "run fromPartName [] w = Inr w"
| "run fromPartName (op # ops) w =
     (case exec fromPartName op w of
        Inl e \<Rightarrow> Inl e
      | Inr w' \<Rightarrow> run fromPartName ops w')"

text \<open>The names that the executing entries among \<open>ps\<close> have tagged: the
  \<^verbatim>\<open>new_part_name\<close> of each, and its \<^verbatim>\<open>actual_new_part_name\<close> when set and distinct.\<close>

definition tagged_names :: "LogEntry list \<Rightarrow> LogEntryPtr list \<Rightarrow> string set" where
  "tagged_names es ps =
     (\<Union>p \<in> set ps.
        if currently_executing (es ! p)
        then {new_part_name (es ! p)}
             \<union> (if actual_new_part_name (es ! p) \<noteq> []
                   \<and> actual_new_part_name (es ! p) \<noteq> new_part_name (es ! p)
                then {actual_new_part_name (es ! p)} else {})
        else {})"

subsection \<open>The spec's words for the size of a merge\<close>

text \<open>"Compute total byte size from parts present locally in states
  {PreCommitted, Committed, Outdated}": the sum, in \<^verbatim>\<open>size_t\<close>, over the names of
  \<^verbatim>\<open>parts_to_merge\<close>; a name with no such part adds nothing.\<close>

definition total_size_in_bytes :: "MergeTreeData \<Rightarrow> string list \<Rightarrow> 64 word" where
  "total_size_in_bytes data names =
     sum_list (map (\<lambda>name'. case getPartIfExists data name' {PreCommitted, Committed, Outdated} of
                              Some part \<Rightarrow> bytes_on_disk part | None \<Rightarrow> 0) names)"

subsection \<open>Concrete inputs\<close>

text \<open>A part-name parser for the names used in the examples below.\<close>

definition example_fromPartName :: "string \<Rightarrow> MergeTreePartInfo" where
  "example_fromPartName n =
     (if n = ''all_1_1_0'' then MergeTreePartInfo_make ''all'' 1 1 0
      else if n = ''all_2_2_0'' then MergeTreePartInfo_make ''all'' 2 2 0
      else if n = ''all_1_2_1'' then MergeTreePartInfo_make ''all'' 1 2 1
      else if n = ''all_1_5_1'' then MergeTreePartInfo_make ''all'' 1 5 1
      else if n = ''all_7_9_1'' then MergeTreePartInfo_make ''all'' 7 9 1
      else if n = ''all_0_10_999999999'' then MergeTreePartInfo_make ''all'' 0 10 999999999
      else MergeTreePartInfo_make n 0 0 0)"

definition example_entry :: "LogEntry_Type \<Rightarrow> string \<Rightarrow> string list \<Rightarrow> int \<Rightarrow> LogEntryData" where
  "example_entry t n ps c =
     \<lparr>data_type = t, data_new_part_name = n, data_parts_to_merge = ps, data_create_time = c\<rparr>"

definition example_part :: "string \<Rightarrow> 64 word \<Rightarrow> MergeTreeDataPart" where
  "example_part n b =
     \<lparr>name = n, info = example_fromPartName n, state = Committed, bytes_on_disk = b\<rparr>"

definition example_merger :: MergeTreeDataMerger where
  "example_merger = \<lparr>isCancelled = False, getMaxPartsSizeForMerge = 1000\<rparr>"

definition example_data :: MergeTreeData where
  "example_data =
     \<lparr>data_parts = [''all_1_1_0'' \<mapsto> example_part ''all_1_1_0'' 60,
                     ''all_2_2_0'' \<mapsto> example_part ''all_2_2_0'' 70],
      max_bytes_to_merge_at_max_space_in_pool = 1000\<rparr>"

definition example_mutation :: "string \<Rightarrow> int \<Rightarrow> ReplicatedMergeTreeMutationEntry" where
  "example_mutation n b =
     \<lparr>mutation_znode_name = n, block_numbers = [(''all'', b)], commands = [n]\<rparr>"

text \<open>A queue that knows two mutations of the partition \<open>all\<close>, at the block numbers 5
  and 10.\<close>

definition example_mutations_queue :: ReplicatedMergeTreeQueue where
  "example_mutations_queue =
     empty_queue
       \<lparr>mutations := [example_mutation ''0000000000'' 5, example_mutation ''0000000001'' 10],
        mutations_by_partition :=
          [''all'' \<mapsto> [(5, example_mutation ''0000000000'' 5),
                        (10, example_mutation ''0000000001'' 10)]]\<rparr>"

text \<open>A queue whose virtual parts are \<open>all_1_5_1\<close> and \<open>all_7_9_1\<close>, read while the
  block number 3 of the partition is held by an insert in progress.\<close>

definition example_merge_queue :: ReplicatedMergeTreeQueue where
  "example_merge_queue =
     empty_queue
       \<lparr>virtual_parts := [(example_fromPartName ''all_1_5_1'', ''all_1_5_1''),
                          (example_fromPartName ''all_7_9_1'', ''all_7_9_1'')],
        next_virtual_parts := [(example_fromPartName ''all_1_5_1'', ''all_1_5_1''),
                               (example_fromPartName ''all_7_9_1'', ''all_7_9_1'')],
        current_inserts := [''all'' \<mapsto> [3]]\<rparr>"

text \<open>A queue whose virtual parts are the adjacent parts \<open>all_1_1_0\<close> and \<open>all_2_2_0\<close>.\<close>

definition example_adjacent_queue :: ReplicatedMergeTreeQueue where
  "example_adjacent_queue =
     empty_queue
       \<lparr>virtual_parts := [(example_fromPartName ''all_1_1_0'', ''all_1_1_0''),
                          (example_fromPartName ''all_2_2_0'', ''all_2_2_0'')],
        next_virtual_parts := [(example_fromPartName ''all_1_1_0'', ''all_1_1_0''),
                               (example_fromPartName ''all_2_2_0'', ''all_2_2_0'')]\<rparr>"

subsection \<open>The spec's words for updateMutations\<close>

text \<open>"Purge local mutations whose znode_name is less than the smallest in the
  coordinator", everything when the coordinator has none.\<close>

definition obsolete_removed ::
  "string list \<Rightarrow> ReplicatedMergeTreeMutationEntry list \<Rightarrow> ReplicatedMergeTreeMutationEntry list" where
  "obsolete_removed entries_in_zk ms =
     (if entries_in_zk = [] then []
      else filter (\<lambda>m. \<not> mutation_znode_name m < Min (set entries_in_zk)) ms)"

text \<open>"Compute entries to load (either all, if local is empty, or only those strictly
  greater than mutations.back().znode_name)", in sorted order; \<open>kept\<close> is the local list
  after the purge.\<close>

definition entries_to_load_spec ::
  "string list \<Rightarrow> ReplicatedMergeTreeMutationEntry list \<Rightarrow> string list" where
  "entries_to_load_spec entries_in_zk kept =
     (if kept = [] then sort entries_in_zk
      else filter (\<lambda>n. n > mutation_znode_name (last kept)) (sort entries_in_zk))"

text \<open>A coordinator with three mutations and two queue entries.\<close>

definition example_zookeeper :: ZooKeeper where
  "example_zookeeper =
     \<lparr>zk_queue = [(''queue-0000000001'', example_entry GET_PART ''all_2_2_0'' [] 20),
                  (''queue-0000000000'', example_entry GET_PART ''all_1_1_0'' [] 10)],
      zk_mutations =
        [(''0000000002'', \<lparr>data_block_numbers = [(''all'', 10)], data_commands = [''second'']\<rparr>),
         (''0000000001'', \<lparr>data_block_numbers = [(''all'', 5)], data_commands = [''first'']\<rparr>),
         (''0000000003'', \<lparr>data_block_numbers = [(''all'', 15)], data_commands = [''third'']\<rparr>)]\<rparr>"

text \<open>A queue that has loaded the mutations \<open>0000000000\<close> and \<open>0000000001\<close>.\<close>

definition example_stale_queue :: ReplicatedMergeTreeQueue where
  "example_stale_queue =
     empty_queue
       \<lparr>mutations := [example_mutation ''0000000000'' 2, example_mutation ''0000000001'' 5],
        mutations_by_partition :=
          [''all'' \<mapsto> [(2, example_mutation ''0000000000'' 2),
                        (5, example_mutation ''0000000001'' 5)]]\<rparr>"

subsection \<open>Well-formed queues\<close>

text \<open>The set \<^verbatim>\<open>already_loaded_paths\<close> that load builds: the znode names of the entries in
  the queue.\<close>

definition znode_names :: "ReplicatedMergeTreeQueue \<Rightarrow> string set" where
  "znode_names q = (\<lambda>log_entry. znode_name (entries q ! log_entry)) ` set (queue q)"

text \<open>Every pointer in the queue points to an entry that is alive.\<close>

definition no_dangling :: "ReplicatedMergeTreeQueue \<Rightarrow> bool" where
  "no_dangling q \<longleftrightarrow> (\<forall>p \<in> set (queue q). p < length (entries q))"

subsection \<open>The invariant of the executing entries\<close>

text \<open>The names an executing entry has in \<^verbatim>\<open>future_parts\<close>: its \<^verbatim>\<open>new_part_name\<close>, and
  its \<^verbatim>\<open>actual_new_part_name\<close> when set.\<close>

definition entry_names :: "LogEntry \<Rightarrow> string set" where
  "entry_names e =
     {new_part_name e} \<union> (if actual_new_part_name e \<noteq> [] then {actual_new_part_name e} else {})"

text \<open>The entries alive, in the queue or not, that are executing.\<close>

definition executing :: "ReplicatedMergeTreeQueue \<Rightarrow> LogEntryPtr set" where
  "executing q = {p. p < length (entries q) \<and> currently_executing (entries q ! p)}"

text \<open>The tagged names of all the entries alive.\<close>

definition all_tagged_names :: "ReplicatedMergeTreeQueue \<Rightarrow> string set" where
  "all_tagged_names q = tagged_names (entries q) [0..<length (entries q)]"

text \<open>
  The invariant of a queue with its handles: the handles are those of the executing
  entries; an entry that is not executing has no actual name; \<^verbatim>\<open>future_parts\<close> is the set
  of the tagged names of the entries alive; two executing entries have no name in
  common; and the queue has no dangling pointer.
\<close>

definition queue_inv :: "world \<Rightarrow> bool" where
  "queue_inv w \<longleftrightarrow>
     (let q = fst w; handles = snd w; es = entries q
      in handles = executing q
         \<and> (\<forall>p < length es. p \<notin> executing q \<longrightarrow> actual_new_part_name (es ! p) = [])
         \<and> future_parts q = all_tagged_names q
         \<and> (\<forall>p \<in> executing q. \<forall>p' \<in> executing q.
               p \<noteq> p' \<longrightarrow> entry_names (es ! p) \<inter> entry_names (es ! p') = {})
         \<and> no_dangling q)"


text \<open>Two queues whose entries have the same execution flags and part names, with the
  same future parts and the same elements in the queue.\<close>

definition same_tags :: "ReplicatedMergeTreeQueue \<Rightarrow> ReplicatedMergeTreeQueue \<Rightarrow> bool" where
  "same_tags q q' \<longleftrightarrow>
     length (entries q') = length (entries q)
     \<and> (\<forall>r < length (entries q).
           currently_executing (entries q' ! r) = currently_executing (entries q ! r)
           \<and> new_part_name (entries q' ! r) = new_part_name (entries q ! r)
           \<and> actual_new_part_name (entries q' ! r) = actual_new_part_name (entries q ! r))
     \<and> future_parts q' = future_parts q
     \<and> set (queue q') = set (queue q)"

text \<open>An entry is inserted, selected for execution, and removed from the queue by
  processEntry while its handle is alive.\<close>

definition example_run :: "stopped + world" where
  "example_run =
     run example_fromPartName
       [Insert (example_entry GET_PART ''all_1_1_0'' [] 10) ''queue-0000000000'',
        Select example_merger example_data 100,
        Remove 0]
       (empty_queue, {})"


text \<open>An entry is inserted and selected for execution, its executor registers the
  actual part name \<open>all_1_2_1\<close>, and processEntry removes the entry from the queue.\<close>

definition example_run_actual :: "stopped + world" where
  "example_run_actual =
     run example_fromPartName
       [Insert (example_entry GET_PART ''all_1_1_0'' [] 10) ''queue-0000000000'',
        Select example_merger example_data 100,
        AddFuturePart 0 ''all_1_2_1'',
        Remove 0]
       (empty_queue, {})"

section \<open>Properties\<close>

subsection \<open>The mutation index\<close>

lemma takeWhile_le_filter:
  "sorted_wrt (<) (map fst m) \<Longrightarrow>
     takeWhile (\<lambda>kv. fst kv \<le> (x::int)) m = filter (\<lambda>kv. fst kv \<le> x) m"
proof (induction m)
  case Nil then show ?case by simp
next
  case (Cons a m)
  show ?case
  proof (cases "fst a \<le> x")
    case True with Cons show ?thesis by simp
  next
    case False
    with Cons.prems have "\<forall>kv \<in> set m. \<not> fst kv \<le> x" by force
    then have "filter (\<lambda>kv. fst kv \<le> x) m = []" by (simp add: filter_empty_conv)
    with False show ?thesis by simp
  qed
qed

lemma sorted_le_last: "sorted xs \<Longrightarrow> k \<in> set xs \<Longrightarrow> k \<le> last (xs :: 'a::linorder list)"
  by (induction xs) auto

lemma upper_bound_zero:
  assumes "sorted_wrt (<) (map fst m)"
  shows "upper_bound m x = 0 \<longleftrightarrow> {k \<in> fst ` set m. k \<le> x} = {}"
  using assms by (auto simp: upper_bound_def takeWhile_le_filter filter_empty_conv)

lemma upper_bound_pred:
  assumes srt: "sorted_wrt (<) (map fst m)" and pos: "upper_bound m x \<noteq> 0"
  shows "fst (m ! (upper_bound m x - 1)) = Max {k \<in> fst ` set m. k \<le> x}"
proof -
  let ?f = "filter (\<lambda>kv. fst kv \<le> x) m"
  let ?n = "upper_bound m x"
  have tw: "takeWhile (\<lambda>kv. fst kv \<le> x) m = ?f" using srt by (rule takeWhile_le_filter)
  have n: "?n = length ?f" by (simp add: upper_bound_def tw)
  have ne: "?f \<noteq> []" using pos n by auto
  have "?f = take ?n m" unfolding upper_bound_def tw[symmetric] by (rule takeWhile_eq_take)
  then have "last ?f = (take ?n m) ! (?n - 1)"
    using ne n by (metis last_conv_nth)
  also have "\<dots> = m ! (?n - 1)" using pos by simp
  finally have l: "m ! (?n - 1) = last ?f" by simp
  have keys: "set (map fst ?f) = {k \<in> fst ` set m. k \<le> x}" by auto
  have "sorted (map fst ?f)"
    using srt by (intro sorted_filter strict_sorted_imp_sorted)
  then have ub: "\<forall>k \<in> set (map fst ?f). k \<le> last (map fst ?f)"
    using sorted_le_last by blast
  have mem: "last (map fst ?f) \<in> set (map fst ?f)" using ne by (intro last_in_set) simp
  have "Max (set (map fst ?f)) = last (map fst ?f)"
    using ub mem by (intro Max_eqI) auto
  moreover have "last (map fst ?f) = fst (last ?f)" using ne by (simp add: last_map)
  ultimately show ?thesis using l keys by simp
qed

text \<open>
  Claim C4. getCurrentMutationVersion returns the largest mutation block number of the
  part's partition that is not greater than the data version of the part, which is its
  \<open>version\<close> when that is not zero and its \<open>min_block\<close> otherwise; it returns -1 when
  the partition has no mutations or none of them is at or below the data version. The
  hypothesis is the order that \<^verbatim>\<open>std::map\<close> keeps its keys in.
\<close>

theorem getCurrentMutationVersion_largest:
  assumes "\<And>m. mutations_by_partition q (partition_id part_info) = Some m
              \<Longrightarrow> sorted_wrt (<) (map fst m)"
  shows "getCurrentMutationVersion q part_info =
           (let data_version' = (if version part_info \<noteq> 0 then version part_info
                                 else min_block part_info);
                known = (case mutations_by_partition q (partition_id part_info) of
                           None \<Rightarrow> {} | Some m \<Rightarrow> fst ` set m);
                not_newer = {k \<in> known. k \<le> data_version'}
            in if not_newer = {} then - 1 else Max not_newer)"
proof (cases "mutations_by_partition q (partition_id part_info)")
  case None
  then show ?thesis by (simp add: getCurrentMutationVersion_def)
next
  case (Some m)
  then have srt: "sorted_wrt (<) (map fst m)" by (rule assms)
  show ?thesis
    using Some upper_bound_zero[OF srt, of "data_version part_info"]
      upper_bound_pred[OF srt, of "data_version part_info"]
    by (simp add: getCurrentMutationVersion_def Let_def data_version_def)
qed

theorem getCurrentMutationVersion_largest_witness:
  "sorted_wrt (<) (map fst [(5::int, example_mutation ''0000000000'' 5),
                            (10, example_mutation ''0000000001'' 10)])
   \<and> getCurrentMutationVersion example_mutations_queue (MergeTreePartInfo_make ''all'' 7 7 0) = 5
   \<and> Max {k \<in> {5, 10}. k \<le> (7::int)} = 5
   \<and> getCurrentMutationVersion example_mutations_queue (MergeTreePartInfo_make ''all'' 3 3 0) = - 1
   \<and> getCurrentMutationVersion example_mutations_queue (MergeTreePartInfo_make ''other'' 7 7 0) = - 1"
proof -
  have m: "mutations_by_partition example_mutations_queue ''all'' =
             Some [(5, example_mutation ''0000000000'' 5), (10, example_mutation ''0000000001'' 10)]"
    by (simp add: example_mutations_queue_def)
  have v: "getCurrentMutationVersion example_mutations_queue (MergeTreePartInfo_make ''all'' 7 7 0) = 5"
    by (simp add: getCurrentMutationVersion_def m MergeTreePartInfo_make_def upper_bound_def data_version_def)
  have v3: "getCurrentMutationVersion example_mutations_queue (MergeTreePartInfo_make ''all'' 3 3 0) = - 1"
    by (simp add: getCurrentMutationVersion_def m MergeTreePartInfo_make_def upper_bound_def data_version_def)
  have v4: "getCurrentMutationVersion example_mutations_queue (MergeTreePartInfo_make ''other'' 7 7 0) = - 1"
    by (simp add: getCurrentMutationVersion_def example_mutations_queue_def MergeTreePartInfo_make_def)
  have s: "sorted_wrt (<) (map fst [(5::int, example_mutation ''0000000000'' 5),
                            (10, example_mutation ''0000000001'' 10)])" by simp
  have "{k \<in> {5, 10}. k \<le> (7::int)} \<noteq> {}" by auto
  with getCurrentMutationVersion_largest[of example_mutations_queue "MergeTreePartInfo_make ''all'' 7 7 0"] v s
  have "Max {k \<in> {5, 10}. k \<le> (7::int)} = 5"
    by (simp add: m MergeTreePartInfo_make_def)
  with v v3 v4 s show ?thesis by simp
qed

subsection \<open>insertUnlocked\<close>

lemma ByTime_equivalent:
  "\<not> ByTime a b \<Longrightarrow> \<not> ByTime b a \<Longrightarrow> create_time a = create_time b \<and> znode_name a = znode_name b"
  by (auto simp: ByTime_def not_less) 

lemma set_ByTime_insert:
  "set xs \<subseteq> set (ByTime_insert es p xs)
   \<and> set (ByTime_insert es p xs) \<subseteq> insert p (set xs)
   \<and> (p \<in> set (ByTime_insert es p xs)
      \<or> (\<exists>x \<in> set xs. create_time (es ! x) = create_time (es ! p)
                       \<and> znode_name (es ! x) = znode_name (es ! p)))"
proof (induction xs)
  case Nil
  then show ?case by simp
next
  case (Cons x xs)
  show ?case
  proof (cases "ByTime (es ! p) (es ! x)")
    case True
    then show ?thesis by auto
  next
    case False
    show ?thesis
    proof (cases "ByTime (es ! x) (es ! p)")
      case True
      with False Cons show ?thesis by auto
    next
      case nb: False
      from ByTime_equivalent[OF False nb] False nb show ?thesis by auto
    qed
  qed
qed

text \<open>
  Claim C7. insertUnlocked adds the entry's \<open>new_part_name\<close> to \<open>next_virtual_parts\<close>;
  it pushes the entry to the front of \<open>queue\<close> when its type is DROP_RANGE and to the back
  for every other type; for a GET_PART entry it also inserts the entry into
  \<open>inserts_by_time\<close> (as \<^verbatim>\<open>std::set\<close> inserts: the entry is in the set afterwards unless
  an element with the same key was there), and sets \<open>min_unprocessed_insert_time\<close> (and
  reports the change) to the entry's \<open>create_time\<close> when that is not zero and is lower
  than the current value or the current value is zero. Nothing else changes.
\<close>

theorem insertUnlocked_effect:
  "insertUnlocked fromPartName entry changed q = (changed', q') \<Longrightarrow> e = entries q ! entry \<Longrightarrow>
     next_virtual_parts q' = ActiveDataPartSet_add fromPartName (new_part_name e) (next_virtual_parts q)
   \<and> (fromPartName (new_part_name e), new_part_name e) \<in> set (next_virtual_parts q')
   \<and> queue q' = (if type e = DROP_RANGE then entry # queue q else queue q @ [entry])
   \<and> inserts_by_time q' = (if type e = GET_PART then ByTime_insert (entries q) entry (inserts_by_time q)
                            else inserts_by_time q)
   \<and> set (inserts_by_time q) \<subseteq> set (inserts_by_time q')
   \<and> (type e = GET_PART \<longrightarrow>
         entry \<in> set (inserts_by_time q')
         \<or> (\<exists>x \<in> set (inserts_by_time q).
               create_time (entries q ! x) = create_time e \<and> znode_name (entries q ! x) = znode_name e))
   \<and> min_unprocessed_insert_time q' =
        (if type e = GET_PART \<and> create_time e \<noteq> 0
            \<and> (create_time e < min_unprocessed_insert_time q \<or> min_unprocessed_insert_time q = 0)
         then create_time e else min_unprocessed_insert_time q)
   \<and> changed' =
        (if type e = GET_PART \<and> create_time e \<noteq> 0
            \<and> (create_time e < min_unprocessed_insert_time q \<or> min_unprocessed_insert_time q = 0)
         then Some (create_time e) else changed)
   \<and> entries q' = entries q \<and> future_parts q' = future_parts q \<and> virtual_parts q' = virtual_parts q"
proof -
  assume r: "insertUnlocked fromPartName entry changed q = (changed', q')" and e: "e = entries q ! entry"
  have ibt: "inserts_by_time q' = (if type e = GET_PART then ByTime_insert (entries q) entry (inserts_by_time q)
                            else inserts_by_time q)"
    using r e by (auto simp: insertUnlocked_def Let_def split: if_splits)
  note s = set_ByTime_insert[of "inserts_by_time q" "entries q" entry]
  have sub: "set (inserts_by_time q) \<subseteq> set (inserts_by_time q')"
    unfolding ibt using s by simp
  have mem: "type e = GET_PART \<longrightarrow>
         entry \<in> set (inserts_by_time q')
         \<or> (\<exists>x \<in> set (inserts_by_time q).
               create_time (entries q ! x) = create_time e \<and> znode_name (entries q ! x) = znode_name e)"
    unfolding ibt e using s by simp
  have rest: "next_virtual_parts q' = ActiveDataPartSet_add fromPartName (new_part_name e) (next_virtual_parts q)
   \<and> (fromPartName (new_part_name e), new_part_name e) \<in> set (next_virtual_parts q')
   \<and> queue q' = (if type e = DROP_RANGE then entry # queue q else queue q @ [entry])
   \<and> min_unprocessed_insert_time q' =
        (if type e = GET_PART \<and> create_time e \<noteq> 0
            \<and> (create_time e < min_unprocessed_insert_time q \<or> min_unprocessed_insert_time q = 0)
         then create_time e else min_unprocessed_insert_time q)
   \<and> changed' =
        (if type e = GET_PART \<and> create_time e \<noteq> 0
            \<and> (create_time e < min_unprocessed_insert_time q \<or> min_unprocessed_insert_time q = 0)
         then Some (create_time e) else changed)
   \<and> entries q' = entries q \<and> future_parts q' = future_parts q \<and> virtual_parts q' = virtual_parts q"
    using r e by (auto simp: insertUnlocked_def Let_def ActiveDataPartSet_add_def split: if_splits)
  from ibt sub mem rest show ?thesis by blast
qed

theorem insertUnlocked_effect_witness:
  "(let q = empty_queue\<lparr>entries :=
              [(LogEntry_parse (example_entry GET_PART ''all_1_1_0'' [] 100))\<lparr>znode_name := ''queue-0000000000''\<rparr>,
               (LogEntry_parse (example_entry DROP_RANGE ''all_0_10_999999999'' [] 200))\<lparr>znode_name := ''queue-0000000001''\<rparr>],
              queue := [0], inserts_by_time := [0], min_unprocessed_insert_time := 100\<rparr>;
        (changed', q') = insertUnlocked example_fromPartName 1 None q
    in queue q' = [1, 0] \<and> inserts_by_time q' = [0] \<and> min_unprocessed_insert_time q' = 100
       \<and> changed' = None
       \<and> next_virtual_parts q' = [(MergeTreePartInfo_make ''all'' 0 10 999999999, ''all_0_10_999999999'')])
   \<and> (let q = empty_queue\<lparr>entries :=
              [(LogEntry_parse (example_entry GET_PART ''all_1_1_0'' [] 100))\<lparr>znode_name := ''queue-0000000000''\<rparr>,
               (LogEntry_parse (example_entry GET_PART ''all_2_2_0'' [] 50))\<lparr>znode_name := ''queue-0000000001''\<rparr>],
              queue := [0], inserts_by_time := [0], min_unprocessed_insert_time := 100\<rparr>;
        (changed', q') = insertUnlocked example_fromPartName 1 None q
    in queue q' = [0, 1] \<and> inserts_by_time q' = [1, 0] \<and> min_unprocessed_insert_time q' = 50
       \<and> changed' = Some 50)"
proof -
  define q1 where "q1 = empty_queue\<lparr>entries :=
              [(LogEntry_parse (example_entry GET_PART ''all_1_1_0'' [] 100))\<lparr>znode_name := ''queue-0000000000''\<rparr>,
               (LogEntry_parse (example_entry DROP_RANGE ''all_0_10_999999999'' [] 200))\<lparr>znode_name := ''queue-0000000001''\<rparr>],
              queue := [0], inserts_by_time := [0], min_unprocessed_insert_time := 100\<rparr>"
  define q2 where "q2 = empty_queue\<lparr>entries :=
              [(LogEntry_parse (example_entry GET_PART ''all_1_1_0'' [] 100))\<lparr>znode_name := ''queue-0000000000''\<rparr>,
               (LogEntry_parse (example_entry GET_PART ''all_2_2_0'' [] 50))\<lparr>znode_name := ''queue-0000000001''\<rparr>],
              queue := [0], inserts_by_time := [0], min_unprocessed_insert_time := 100\<rparr>"
  obtain c1 r1 where r1: "insertUnlocked example_fromPartName 1 None q1 = (c1, r1)" by force
  obtain c2 r2 where r2: "insertUnlocked example_fromPartName 1 None q2 = (c2, r2)" by force
  have a: "queue r1 = [1, 0] \<and> inserts_by_time r1 = [0] \<and> min_unprocessed_insert_time r1 = 100
       \<and> c1 = None
       \<and> next_virtual_parts r1 = [(MergeTreePartInfo_make ''all'' 0 10 999999999, ''all_0_10_999999999'')]"
    using insertUnlocked_effect[OF r1 refl]
    by (simp add: q1_def empty_queue_def LogEntry_parse_def example_entry_def
          ActiveDataPartSet_add_def example_fromPartName_def)
  have b: "queue r2 = [0, 1] \<and> inserts_by_time r2 = [1, 0] \<and> min_unprocessed_insert_time r2 = 50
       \<and> c2 = Some 50"
    using insertUnlocked_effect[OF r2 refl]
    by (simp add: q2_def empty_queue_def LogEntry_parse_def example_entry_def ByTime_def)
  show ?thesis
    using a b r1 r2 by (simp add: q1_def[symmetric] q2_def[symmetric])
qed

subsection \<open>shouldExecuteLogEntry\<close>

lemma sum_parts_size_total:
  "\<forall>name' \<in> set names. name' \<notin> future_parts q \<Longrightarrow>
     sum_parts_size q data names acc = Inr (acc + total_size_in_bytes data names)"
  by (induction names arbitrary: acc)
     (auto simp: total_size_in_bytes_def split: option.splits)

lemma check_merge_eq:
  assumes "\<forall>name' \<in> set (parts_to_merge entry). name' \<notin> future_parts q"
  shows "check_merge q merger data entry =
          (if isCancelled merger then Some (MergesCancelled (new_part_name entry))
           else if getMaxPartsSizeForMerge merger \<noteq> max_bytes_to_merge_at_max_space_in_pool data
                   \<and> total_size_in_bytes data (parts_to_merge entry) > getMaxPartsSizeForMerge merger
           then Some (SizeGreaterThanMaximum (new_part_name entry)
                        (total_size_in_bytes data (parts_to_merge entry)) (getMaxPartsSizeForMerge merger))
           else None)"
  by (simp add: check_merge_def sum_parts_size_total[OF assms] Let_def)

text \<open>
  Claim C9. For a MERGE_PARTS or MUTATE_PART entry that passes the check against the
  future parts and none of whose source parts is a future part, shouldExecuteLogEntry
  returns false, with a reason, when the cancel flag of the merge executor is set; it
  returns false, with a reason, when the executor's \<open>max_parts_size_for_merge\<close> is not
  the configured \<open>max_bytes_to_merge_at_max_space_in_pool\<close> and the total size of the
  source parts present in the states PreCommitted, Committed and Outdated is greater
  than it; and it returns true otherwise: when \<open>max_parts_size_for_merge\<close> is the
  configured maximum, the size never postpones the entry.
\<close>

theorem shouldExecuteLogEntry_merge:
  assumes ty: "type entry = MERGE_PARTS \<or> type entry = MUTATE_PART"
    and cov: "fst (isNotCoveredByFuturePartsImpl fromPartName q (new_part_name entry))"
    and pre: "\<forall>name' \<in> set (parts_to_merge entry). name' \<notin> future_parts q"
  shows "shouldExecuteLogEntry fromPartName q entry merger data =
          (if isCancelled merger then (False, Some (MergesCancelled (new_part_name entry)))
           else if getMaxPartsSizeForMerge merger \<noteq> max_bytes_to_merge_at_max_space_in_pool data
                   \<and> total_size_in_bytes data (parts_to_merge entry) > getMaxPartsSizeForMerge merger
           then (False, Some (SizeGreaterThanMaximum (new_part_name entry)
                        (total_size_in_bytes data (parts_to_merge entry)) (getMaxPartsSizeForMerge merger)))
           else (True, None))"
  using ty cov by (auto simp: shouldExecuteLogEntry_def check_merge_eq[OF pre])

theorem shouldExecuteLogEntry_merge_witness:
  "(let entry = LogEntry_parse (example_entry MERGE_PARTS ''all_1_2_1'' [''all_1_1_0'', ''all_2_2_0''] 0);
        q = empty_queue\<lparr>future_parts := {''all_7_9_1''}\<rparr>
    in (type entry = MERGE_PARTS \<or> type entry = MUTATE_PART)
       \<and> fst (isNotCoveredByFuturePartsImpl example_fromPartName q (new_part_name entry))
       \<and> (\<forall>name' \<in> set (parts_to_merge entry). name' \<notin> future_parts q)
       \<and> total_size_in_bytes example_data (parts_to_merge entry) = 130
       \<and> shouldExecuteLogEntry example_fromPartName q entry
            \<lparr>isCancelled = True, getMaxPartsSizeForMerge = 1000\<rparr> example_data
          = (False, Some (MergesCancelled ''all_1_2_1''))
       \<and> shouldExecuteLogEntry example_fromPartName q entry
            \<lparr>isCancelled = False, getMaxPartsSizeForMerge = 100\<rparr> example_data
          = (False, Some (SizeGreaterThanMaximum ''all_1_2_1'' 130 100))
       \<and> shouldExecuteLogEntry example_fromPartName q entry
            \<lparr>isCancelled = False, getMaxPartsSizeForMerge = 1000\<rparr>
            (example_data\<lparr>data_parts := [''all_1_1_0'' \<mapsto> example_part ''all_1_1_0'' 600,
                                          ''all_2_2_0'' \<mapsto> example_part ''all_2_2_0'' 700]\<rparr>)
          = (True, None))"
proof -
  define entry where "entry = LogEntry_parse (example_entry MERGE_PARTS ''all_1_2_1'' [''all_1_1_0'', ''all_2_2_0''] 0)"
  define q where "q = empty_queue\<lparr>future_parts := {''all_7_9_1''}\<rparr>"
  have ty: "type entry = MERGE_PARTS \<or> type entry = MUTATE_PART"
    by (simp add: entry_def LogEntry_parse_def example_entry_def)
  have cov: "fst (isNotCoveredByFuturePartsImpl example_fromPartName q (new_part_name entry))"
    by (simp add: entry_def q_def LogEntry_parse_def example_entry_def isNotCoveredByFuturePartsImpl_def
          empty_queue_def example_fromPartName_def contains_def MergeTreePartInfo_make_def)
  have pre: "\<forall>name' \<in> set (parts_to_merge entry). name' \<notin> future_parts q"
    by (simp add: entry_def q_def LogEntry_parse_def example_entry_def empty_queue_def)
  have tot: "total_size_in_bytes example_data (parts_to_merge entry) = 130"
    by (simp add: entry_def LogEntry_parse_def example_entry_def total_size_in_bytes_def
          example_data_def getPartIfExists_def example_part_def)
  have tot2: "total_size_in_bytes (example_data\<lparr>data_parts := [''all_1_1_0'' \<mapsto> example_part ''all_1_1_0'' 600,
                                          ''all_2_2_0'' \<mapsto> example_part ''all_2_2_0'' 700]\<rparr>) (parts_to_merge entry) = 1300"
    by (simp add: entry_def LogEntry_parse_def example_entry_def total_size_in_bytes_def
          example_data_def getPartIfExists_def example_part_def)
  have n: "new_part_name entry = ''all_1_2_1''"
    by (simp add: entry_def LogEntry_parse_def example_entry_def)
  note th = shouldExecuteLogEntry_merge[OF ty cov pre]
  have 1: "shouldExecuteLogEntry example_fromPartName q entry
            \<lparr>isCancelled = True, getMaxPartsSizeForMerge = 1000\<rparr> example_data
          = (False, Some (MergesCancelled ''all_1_2_1''))"
    using th[of "\<lparr>isCancelled = True, getMaxPartsSizeForMerge = 1000\<rparr>" example_data] n by simp
  have 2: "shouldExecuteLogEntry example_fromPartName q entry
            \<lparr>isCancelled = False, getMaxPartsSizeForMerge = 100\<rparr> example_data
          = (False, Some (SizeGreaterThanMaximum ''all_1_2_1'' 130 100))"
    using th[of "\<lparr>isCancelled = False, getMaxPartsSizeForMerge = 100\<rparr>" example_data] n tot
    by (simp add: example_data_def)
  have 3: "shouldExecuteLogEntry example_fromPartName q entry
            \<lparr>isCancelled = False, getMaxPartsSizeForMerge = 1000\<rparr>
            (example_data\<lparr>data_parts := [''all_1_1_0'' \<mapsto> example_part ''all_1_1_0'' 600,
                                          ''all_2_2_0'' \<mapsto> example_part ''all_2_2_0'' 700]\<rparr>)
          = (True, None)"
    using th[of "\<lparr>isCancelled = False, getMaxPartsSizeForMerge = 1000\<rparr>"
              "example_data\<lparr>data_parts := [''all_1_1_0'' \<mapsto> example_part ''all_1_1_0'' 600,
                                          ''all_2_2_0'' \<mapsto> example_part ''all_2_2_0'' 700]\<rparr>"] n tot2
    by (simp add: example_data_def)
  show ?thesis
    using ty cov pre tot 1 2 3 by (simp add: entry_def[symmetric] q_def[symmetric])
qed

text \<open>
  Claim C10. For an entry of type DROP_RANGE shouldExecuteLogEntry returns true and
  writes no reason, whatever the future parts, the queue, the merge executor and the
  part store are: none of the admission checks applies to it.
\<close>

theorem shouldExecuteLogEntry_DROP_RANGE:
  "type entry = DROP_RANGE \<Longrightarrow>
     shouldExecuteLogEntry fromPartName q entry merger data = (True, None)"
  by (simp add: shouldExecuteLogEntry_def)

theorem shouldExecuteLogEntry_DROP_RANGE_witness:
  "(let entry = LogEntry_parse (example_entry DROP_RANGE ''all_0_10_999999999'' [] 0);
        q = empty_queue\<lparr>future_parts := {''all_0_10_999999999''}\<rparr>
    in type entry = DROP_RANGE
       \<and> shouldExecuteLogEntry example_fromPartName q entry
            \<lparr>isCancelled = True, getMaxPartsSizeForMerge = 0\<rparr> example_data = (True, None))"
  using shouldExecuteLogEntry_DROP_RANGE[of
      "LogEntry_parse (example_entry DROP_RANGE ''all_0_10_999999999'' [] 0)"
      example_fromPartName "empty_queue\<lparr>future_parts := {''all_0_10_999999999''}\<rparr>"
      "\<lparr>isCancelled = True, getMaxPartsSizeForMerge = 0\<rparr>" example_data]
  by (simp add: Let_def LogEntry_parse_def example_entry_def)

subsection \<open>canMergeParts\<close>

lemma check_part_indep [simp]:
  "check_part (q\<lparr>current_inserts := ci, next_virtual_parts := nvp\<rparr>) part = check_part q part"
  by (simp add: check_part_def)

lemma getCurrentMutationVersion_indep [simp]:
  "getCurrentMutationVersion (q\<lparr>current_inserts := ci, next_virtual_parts := nvp\<rparr>) part_info
     = getCurrentMutationVersion q part_info"
  by (simp add: getCurrentMutationVersion_def)

lemma set_upper_bound_sorted:
  assumes "sorted_wrt (<) xs" "b \<in> set xs" "x < b"
  shows "\<exists>b'. set_upper_bound xs x = Some b' \<and> x < b' \<and> b' \<le> b"
  using assms
proof (induction xs)
  case Nil then show ?case by simp
next
  case (Cons a xs)
  show ?case
  proof (cases "x < a")
    case True
    with Cons.prems show ?thesis by (auto simp: set_upper_bound_def)
  next
    case False
    with Cons.prems have "b \<in> set xs" by auto
    with Cons False show ?thesis by (auto simp: set_upper_bound_def)
  qed
qed

lemma check_gap_ephemeral:
  assumes "current_inserts q (partition_id (info left)) = Some ephemeral"
    and "sorted_wrt (<) ephemeral" and "b \<in> set ephemeral" and "lo < b" and "b < hi"
  shows "\<exists>b'. check_gap q left right lo hi = Some (BlockStillInserted b' (name left) (name right))
              \<and> b' \<in> set ephemeral \<and> lo < b' \<and> b' \<le> b"
proof -
  from set_upper_bound_sorted[OF assms(2,3,4)]
  obtain b' where b': "set_upper_bound ephemeral lo = Some b'" "lo < b'" "b' \<le> b" by blast
  then have "b' \<in> set ephemeral"
    by (auto simp: set_upper_bound_def find_Some_iff)
  with b' assms show ?thesis by (simp add: check_gap_def)
qed

lemma swap_bounds:
  "(if (a::int) > b then b else a) = min a b" "(if (a::int) > b then a else b) = max a b"
  by (auto simp: min_def max_def)

lemma canMergeParts_reason_bounds:
  assumes lo: "lo = min (max_block (info left)) (min_block (info right))"
      and hi: "hi = max (max_block (info left)) (min_block (info right))"
  shows "canMergeParts_reason q left right =
     (if name left = name right then Some (MergeToItself (name left))
      else if partition_id (info left) \<noteq> partition_id (info right)
      then Some (DifferentPartitions (name left) (name right))
      else case check_part q left of Some r \<Rightarrow> Some r | None \<Rightarrow>
           case check_part q right of Some r \<Rightarrow> Some r | None \<Rightarrow>
           case (if lo + 1 < hi then check_gap q left right lo hi else None) of
            Some r \<Rightarrow> Some r
          | None \<Rightarrow>
              if getCurrentMutationVersion q (info left) \<noteq> getCurrentMutationVersion q (info right)
                  then Some (MutationVersionsDiffer (name left) (name right)
                               (getCurrentMutationVersion q (info left))
                               (getCurrentMutationVersion q (info right)))
                  else None)"
  unfolding canMergeParts_reason_def Let_def swap_bounds lo hi by (rule refl)

text \<open>
  Claim C3. Let \<open>lo\<close> and \<open>hi\<close> be \<open>left.max_block\<close> and \<open>right.min_block\<close> after the
  swap that makes \<open>lo \<le> hi\<close>. When some ephemeral block number \<open>b\<close> of the partition in
  \<open>current_inserts\<close> lies strictly between them (so the gap is not empty), canMergeParts
  returns false. When the pair is exactly adjacent, \<open>lo + 1 = hi\<close>, neither the check of
  the ephemeral block numbers nor the check of \<open>next_virtual_parts\<close> is made: the result
  and the reason are the same whatever \<open>current_inserts\<close> and \<open>next_virtual_parts\<close>
  hold, and for parts that pass the name, partition, virtual-part and quorum checks the
  result is the agreement of the mutation versions. The order of \<open>ephemeral\<close> is the
  one \<^verbatim>\<open>std::set\<close> keeps.
\<close>

theorem canMergeParts_gap:
  assumes lo: "lo = min (max_block (info left)) (min_block (info right))"
      and hi: "hi = max (max_block (info left)) (min_block (info right))"
  shows "(\<forall>ephemeral b. current_inserts q (partition_id (info left)) = Some ephemeral
             \<and> sorted_wrt (<) ephemeral \<and> b \<in> set ephemeral \<and> lo < b \<and> b < hi
           \<longrightarrow> \<not> canMergeParts q left right)
       \<and> (lo + 1 = hi \<longrightarrow>
            (\<forall>inserts parts. canMergeParts_reason (q\<lparr>current_inserts := inserts, next_virtual_parts := parts\<rparr>) left right
                = canMergeParts_reason q left right)
            \<and> (name left \<noteq> name right \<and> partition_id (info left) = partition_id (info right)
                \<and> check_part q left = None \<and> check_part q right = None
              \<longrightarrow> canMergeParts q left right
                    = (getCurrentMutationVersion q (info left) = getCurrentMutationVersion q (info right))))"
proof (intro conjI allI impI)
  fix ephemeral b
  assume a: "current_inserts q (partition_id (info left)) = Some ephemeral
             \<and> sorted_wrt (<) ephemeral \<and> b \<in> set ephemeral \<and> lo < b \<and> b < hi"
  then have gap: "lo + 1 < hi" by simp
  from a check_gap_ephemeral[of q left ephemeral b lo hi right]
  obtain b' where g: "check_gap q left right lo hi = Some (BlockStillInserted b' (name left) (name right))"
    by blast
  show "\<not> canMergeParts q left right"
    unfolding canMergeParts_def canMergeParts_reason_bounds[OF lo hi]
    using gap g by (simp split: option.splits)
next
  fix inserts parts
  assume "lo + 1 = hi"
  then show "canMergeParts_reason (q\<lparr>current_inserts := inserts, next_virtual_parts := parts\<rparr>) left right
                = canMergeParts_reason q left right"
    unfolding canMergeParts_reason_bounds[OF lo hi] by (simp cong: option.case_cong)
next
  assume "lo + 1 = hi" 
    and "name left \<noteq> name right \<and> partition_id (info left) = partition_id (info right)
                \<and> check_part q left = None \<and> check_part q right = None"
  then show "canMergeParts q left right
                    = (getCurrentMutationVersion q (info left) = getCurrentMutationVersion q (info right))"
    unfolding canMergeParts_def canMergeParts_reason_bounds[OF lo hi] by simp
qed

lemmas example_simps = example_merge_queue_def example_adjacent_queue_def empty_queue_def example_part_def example_fromPartName_def
  MergeTreePartInfo_make_def canMergeParts_def canMergeParts_reason_def check_part_def
  getContainingPart_def contains_def check_gap_def set_upper_bound_def getPartsCoveredBy_def
  getCurrentMutationVersion_def Let_def

theorem canMergeParts_gap_witness:
  "(let q = example_merge_queue\<lparr>current_inserts := [''all'' \<mapsto> [3, 6]]\<rparr>;
        left = example_part ''all_1_5_1'' 10; right = example_part ''all_7_9_1'' 10
    in min (max_block (info left)) (min_block (info right)) = 5
       \<and> max (max_block (info left)) (min_block (info right)) = 7
       \<and> current_inserts q (partition_id (info left)) = Some [3, 6]
       \<and> \<not> canMergeParts q left right)
   \<and> (let q = example_adjacent_queue;
           left = example_part ''all_1_1_0'' 10; right = example_part ''all_2_2_0'' 10
       in min (max_block (info left)) (min_block (info right)) + 1
            = max (max_block (info left)) (min_block (info right))
          \<and> name left \<noteq> name right \<and> partition_id (info left) = partition_id (info right)
          \<and> check_part q left = None \<and> check_part q right = None
          \<and> canMergeParts q left right
          \<and> canMergeParts_reason
               (q\<lparr>current_inserts := [''all'' \<mapsto> [1, 2]],
                  next_virtual_parts := [(example_fromPartName ''all_1_2_1'', ''all_1_2_1'')]\<rparr>)
               left right = None)"
proof -
  define q1 where "q1 = example_merge_queue\<lparr>current_inserts := [''all'' \<mapsto> [3, 6]]\<rparr>"
  define a where "a = example_part ''all_1_5_1'' 10"
  define b where "b = example_part ''all_7_9_1'' 10"
  define c where "c = example_part ''all_1_1_0'' 10"
  define d where "d = example_part ''all_2_2_0'' 10"
  have lo1: "5 = min (max_block (info a)) (min_block (info b))"
    and hi1: "7 = max (max_block (info a)) (min_block (info b))"
    by (simp_all add: a_def b_def example_part_def example_fromPartName_def MergeTreePartInfo_make_def)
  have ci: "current_inserts q1 (partition_id (info a)) = Some [3, 6]"
    by (simp add: q1_def a_def example_part_def example_fromPartName_def MergeTreePartInfo_make_def)
  have 1: "\<not> canMergeParts q1 a b"
    using canMergeParts_gap[OF lo1 hi1, of q1] ci by auto
  have lo2: "1 = min (max_block (info c)) (min_block (info d))"
    and hi2: "2 = max (max_block (info c)) (min_block (info d))"
    by (simp_all add: c_def d_def example_part_def example_fromPartName_def MergeTreePartInfo_make_def)
  have pass: "name c \<noteq> name d \<and> partition_id (info c) = partition_id (info d)
          \<and> check_part example_adjacent_queue c = None \<and> check_part example_adjacent_queue d = None"
    by (simp add: c_def d_def example_simps)
  have mv: "getCurrentMutationVersion example_adjacent_queue (info c)
            = getCurrentMutationVersion example_adjacent_queue (info d)"
    by (simp add: example_simps)
  note th = canMergeParts_gap[OF lo2 hi2, of example_adjacent_queue]
  have 2: "canMergeParts example_adjacent_queue c d" using th pass mv by simp
  then have "canMergeParts_reason example_adjacent_queue c d = None" by (simp add: canMergeParts_def)
  with th have 3: "canMergeParts_reason
               (example_adjacent_queue\<lparr>current_inserts := [''all'' \<mapsto> [1, 2]],
                  next_virtual_parts := [(example_fromPartName ''all_1_2_1'', ''all_1_2_1'')]\<rparr>)
               c d = None" by simp
  show ?thesis
    using lo1 hi1 ci 1 lo2 hi2 pass 2 3
    by (simp add: q1_def[symmetric] a_def[symmetric] b_def[symmetric] c_def[symmetric] d_def[symmetric])
qed

text \<open>For two parts of one block each the swap of the bounds gives the same gap in
  both orders, and the results agree.\<close>

lemma check_gap_None_sym:
  "partition_id (info left) = partition_id (info right) \<Longrightarrow>
     (check_gap q left right lo hi = None) = (check_gap q right left lo hi = None)"
  by (auto simp: check_gap_def Let_def split: option.splits)

lemma canMergeParts_symmetric_single_block:
  assumes a: "min_block (info a) = max_block (info a)"
      and b: "min_block (info b) = max_block (info b)"
  shows "canMergeParts q a b = canMergeParts q b a"
proof -
  define lo where "lo = min (max_block (info a)) (min_block (info b))"
  define hi where "hi = max (max_block (info a)) (min_block (info b))"
  have lo': "lo = min (max_block (info b)) (min_block (info a))"
    and hi': "hi = max (max_block (info b)) (min_block (info a))"
    using a b by (simp_all add: lo_def hi_def min_def max_def)
  show ?thesis
  proof (cases "name a = name b \<or> partition_id (info a) \<noteq> partition_id (info b)")
    case True
    then show ?thesis
      unfolding canMergeParts_def canMergeParts_reason_bounds[OF lo_def hi_def]
        canMergeParts_reason_bounds[OF lo' hi'] by auto
  next
    case False
    then have p: "partition_id (info a) = partition_id (info b)" and n: "name a \<noteq> name b" by simp_all
    note g = check_gap_None_sym[OF p, of q lo hi]
    show ?thesis
      unfolding canMergeParts_def canMergeParts_reason_bounds[OF lo_def hi_def]
        canMergeParts_reason_bounds[OF lo' hi']
      using p n g by (auto split: option.splits)
  qed
qed

text \<open>
  Claim C2. canMergeParts is not symmetric in the code: the parts \<open>all_1_5_1\<close> and
  \<open>all_7_9_1\<close> can be merged when given in this order and cannot when given in the other
  order, in the same queue. In the second order the swap of \<open>left.max_block = 9\<close> with
  \<open>right.min_block = 1\<close> makes the gap the blocks 2 to 8, which holds the ephemeral block
  number 3; in the first order the gap is the block 6.
\<close>

theorem canMergeParts_not_symmetric:
  "canMergeParts example_merge_queue (example_part ''all_1_5_1'' 10) (example_part ''all_7_9_1'' 10)
   \<and> \<not> canMergeParts example_merge_queue (example_part ''all_7_9_1'' 10) (example_part ''all_1_5_1'' 10)
   \<and> canMergeParts_reason example_merge_queue (example_part ''all_7_9_1'' 10) (example_part ''all_1_5_1'' 10)
       = Some (BlockStillInserted 3 ''all_7_9_1'' ''all_1_5_1'')"
  by (simp add: example_merge_queue_def example_adjacent_queue_def empty_queue_def example_part_def
        example_fromPartName_def MergeTreePartInfo_make_def canMergeParts_def canMergeParts_reason_def
        check_part_def getContainingPart_def contains_def check_gap_def set_upper_bound_def
        getPartsCoveredBy_def getCurrentMutationVersion_def Let_def)

subsection \<open>updateMutations\<close>

lemma remove_obsolete_dropWhile:
  "fst (remove_obsolete front ms by_partition) = dropWhile (\<lambda>m. mutation_znode_name m < front) ms"
  by (induction ms arbitrary: by_partition) auto

lemma dropWhile_sorted_filter:
  "sorted_wrt (<) (map mutation_znode_name ms) \<Longrightarrow>
     dropWhile (\<lambda>m. mutation_znode_name m < front) ms = filter (\<lambda>m. \<not> mutation_znode_name m < front) ms"
proof (induction ms)
  case Nil then show ?case by simp
next
  case (Cons a ms)
  show ?case
  proof (cases "mutation_znode_name a < front")
    case True with Cons show ?thesis by simp
  next
    case False
    with Cons.prems have "\<forall>m \<in> set ms. \<not> mutation_znode_name m < front" by fastforce
    then have "filter (\<lambda>m. \<not> mutation_znode_name m < front) ms = ms" by (simp add: filter_id_conv)
    with False show ?thesis by simp
  qed
qed

lemma hd_sort_Min: "xs \<noteq> [] \<Longrightarrow> hd (sort xs) = Min (set (xs :: string list))"
proof -
  assume ne: "xs \<noteq> []"
  then have ne': "sort xs \<noteq> []" by (metis length_0_conv length_sort)
  have "sorted (sort xs)" by simp
  then have "\<forall>y \<in> set (sort xs). hd (sort xs) \<le> y"
    using ne' by (cases "sort xs") auto
  moreover have "hd (sort xs) \<in> set (sort xs)" using ne' by (rule hd_in_set)
  ultimately have "Min (set (sort xs)) = hd (sort xs)" by (intro Min_eqI) auto
  then show ?thesis by simp
qed

lemma takeWhile_rev_sorted:
  "sorted (xs :: string list) \<Longrightarrow> rev (takeWhile (\<lambda>x. b < x) (rev xs)) = filter (\<lambda>x. b < x) xs"
proof (induction xs rule: rev_induct)
  case Nil then show ?case by simp
next
  case (snoc x xs)
  then have s: "sorted xs" and le: "\<forall>y \<in> set xs. y \<le> x" by (auto simp: sorted_append)
  show ?case
  proof (cases "b < x")
    case True with snoc s show ?thesis by simp
  next
    case False
    with le have "\<forall>y \<in> set xs. \<not> b < y" by auto
    then have "filter (\<lambda>x. b < x) xs = []" by (simp add: filter_empty_conv)
    with False show ?thesis by simp
  qed
qed

lemma get_all_present:
  "set names \<subseteq> fst ` set nodes \<Longrightarrow>
     \<exists>futures. get_all nodes names = Inr futures \<and> map fst futures = names"
proof (induction names)
  case Nil then show ?case by simp
next
  case (Cons n names)
  then obtain futures where f: "get_all nodes names = Inr futures" "map fst futures = names" by auto
  from Cons.prems have "n \<in> fst ` set nodes" by simp
  then obtain body where "map_of nodes n = Some body"
    by (metis map_of_eq_None_iff not_Some_eq)
  with f show ?case by simp
qed

lemma purge_and_select_spec:
  assumes srt: "sorted_wrt (<) (map mutation_znode_name (mutations q))"
  shows "purge_and_select (sort names) q = (to_load, q1) \<Longrightarrow>
           mutations q1 = obsolete_removed names (mutations q)
         \<and> to_load = entries_to_load_spec names (mutations q1)"
proof -
  assume ps: "purge_and_select (sort names) q = (to_load, q1)"
  have e: "(sort names = []) = (names = [])" by (metis length_0_conv length_sort)
  have m: "mutations q1 = obsolete_removed names (mutations q)"
  proof (cases "names = []")
    case True
    with ps show ?thesis by (auto simp: purge_and_select_def obsolete_removed_def Let_def)
  next
    case False
    obtain ms bp where r: "remove_obsolete (hd (sort names)) (mutations q) (mutations_by_partition q) = (ms, bp)"
      by force
    then have "ms = dropWhile (\<lambda>m. mutation_znode_name m < hd (sort names)) (mutations q)"
      using remove_obsolete_dropWhile[of "hd (sort names)" "mutations q" "mutations_by_partition q"] by simp
    then have "ms = filter (\<lambda>m. \<not> mutation_znode_name m < hd (sort names)) (mutations q)"
      by (simp only: dropWhile_sorted_filter[OF srt])
    then have "ms = obsolete_removed names (mutations q)"
      unfolding obsolete_removed_def hd_sort_Min[OF False] using False by (simp only: if_False)
    moreover have "mutations q1 = ms"
      using ps False e r by (auto simp: purge_and_select_def Let_def)
    ultimately show ?thesis by simp
  qed
  have "to_load = (if mutations q1 = [] then sort names
                   else newer_entries (mutation_znode_name (last (mutations q1))) (sort names))"
    using ps by (auto simp: purge_and_select_def Let_def split: prod.splits if_splits)
  then have "to_load = entries_to_load_spec names (mutations q1)"
    by (simp add: entries_to_load_spec_def newer_entries_def takeWhile_rev_sorted)
  with m show ?thesis by simp
qed


lemma set_entries_to_load_spec: "set (entries_to_load_spec names kept) \<subseteq> set names"
  by (auto simp: entries_to_load_spec_def)

lemma sorted_entries_to_load_spec:
  "distinct names \<Longrightarrow> sorted_wrt (<) (entries_to_load_spec names kept)"
  by (simp add: entries_to_load_spec_def strict_sorted_iff sorted_filter[where f = "\<lambda>x. x", simplified])

lemma sorted_obsolete_removed:
  "sorted_wrt (<) (map mutation_znode_name ms) \<Longrightarrow>
     sorted_wrt (<) (map mutation_znode_name (obsolete_removed names ms))"
  by (simp add: obsolete_removed_def sorted_wrt_map sorted_wrt_filter)

lemma kept_before_loaded:
  assumes "sorted_wrt (<) (map mutation_znode_name kept)"
    and "k \<in> set kept" and "n \<in> set (entries_to_load_spec names kept)"
  shows "mutation_znode_name k < n"
proof -
  from assms(2) have ne: "kept \<noteq> []" by auto
  with assms(3) have "mutation_znode_name (last kept) < n" by (simp add: entries_to_load_spec_def)
  moreover have "sorted (map mutation_znode_name kept)"
    using assms(1) by (rule strict_sorted_imp_sorted)
  then have "mutation_znode_name k \<le> last (map mutation_znode_name kept)"
    using assms(2) by (intro sorted_le_last) auto
  then have "mutation_znode_name k \<le> mutation_znode_name (last kept)"
    using ne by (simp add: last_map)
  ultimately show ?thesis by simp
qed

text \<open>
  Claim C6. updateMutations keeps \<open>mutations\<close> in strictly increasing \<open>znode_name\<close>
  order. It removes the local mutations whose name is less than the smallest name in the
  coordinator (all of them when the coordinator has none), and appends entries whose
  names are, in sorted order, all the names in the coordinator when the local list is
  empty after that, and otherwise exactly those greater than the name of the last local
  mutation. It returns whether it loaded anything. The children of a coordinator node
  have distinct names.
\<close>

theorem updateMutations_keeps_order:
  assumes srt: "sorted_wrt (<) (map mutation_znode_name (mutations q))"
      and dst: "distinct (map fst (zk_mutations zookeeper))"
      and res: "updateMutations zookeeper q = (r, q')"
      and names: "entries_in_zk = map fst (zk_mutations zookeeper)"
      and kept: "kept = obsolete_removed entries_in_zk (mutations q)"
  shows "sorted_wrt (<) (map mutation_znode_name (mutations q'))
       \<and> (\<exists>new_mutations. mutations q' = kept @ new_mutations
            \<and> map mutation_znode_name new_mutations = entries_to_load_spec entries_in_zk kept)
       \<and> r = Inr (entries_to_load_spec entries_in_zk kept \<noteq> [])"
proof -
  let ?load = "entries_to_load_spec entries_in_zk kept"
  obtain to_load q1 where ps: "purge_and_select (sort entries_in_zk) q = (to_load, q1)" by force
  from purge_and_select_spec[OF srt ps] kept
  have q1: "mutations q1 = kept" and tl: "to_load = ?load" by simp_all
  have sk: "sorted_wrt (<) (map mutation_znode_name kept)"
    unfolding kept using srt by (rule sorted_obsolete_removed)
  have sl: "sorted_wrt (<) ?load" using dst names by (simp add: sorted_entries_to_load_spec)
  have "set ?load \<subseteq> fst ` set (zk_mutations zookeeper)"
    using set_entries_to_load_spec[of entries_in_zk kept] names by simp
  from get_all_present[OF this]
  obtain futures where f: "get_all (zk_mutations zookeeper) ?load = Inr futures" "map fst futures = ?load"
    by blast
  define new_mutations where
    "new_mutations = (if ?load = [] then []
                      else map (\<lambda>future. MutationEntry_parse (snd future) (fst future)) futures)"
  have nm: "map mutation_znode_name new_mutations = ?load"
    using f(2) by (auto simp: new_mutations_def MutationEntry_parse_def comp_def)
  have um: "updateMutations zookeeper q =
              (if ?load \<noteq> []
               then (Inr True,
                     q1\<lparr>mutations_by_partition :=
                          index_mutations (map (\<lambda>future. MutationEntry_parse (snd future) (fst future)) futures)
                            (mutations_by_partition q1),
                        mutations := kept @ map (\<lambda>future. MutationEntry_parse (snd future) (fst future)) futures\<rparr>)
               else (Inr False, q1))"
    using ps f(1) q1 tl names by (simp add: updateMutations_def Let_def)
  have m': "mutations q' = kept @ new_mutations" and r: "r = Inr (?load \<noteq> [])"
    using res q1 unfolding um new_mutations_def by (auto split: if_splits)
  have "sorted_wrt (<) (map mutation_znode_name (kept @ new_mutations))"
    using sk sl nm kept_before_loaded[OF sk]
    by (simp add: sorted_wrt_append)
  with m' nm r show ?thesis by auto
qed

theorem updateMutations_keeps_order_witness:
  "sorted_wrt (<) (map mutation_znode_name (mutations example_stale_queue))
   \<and> distinct (map fst (zk_mutations example_zookeeper))
   \<and> obsolete_removed (map fst (zk_mutations example_zookeeper)) (mutations example_stale_queue)
       = [example_mutation ''0000000001'' 5]
   \<and> entries_to_load_spec (map fst (zk_mutations example_zookeeper)) [example_mutation ''0000000001'' 5]
       = [''0000000002'', ''0000000003'']
   \<and> fst (updateMutations example_zookeeper example_stale_queue) = Inr True
   \<and> map mutation_znode_name (mutations (snd (updateMutations example_zookeeper example_stale_queue)))
       = [''0000000001'', ''0000000002'', ''0000000003'']
   \<and> sorted_wrt (<) (map mutation_znode_name
        (mutations (snd (updateMutations example_zookeeper example_stale_queue))))"
proof -
  have srt: "sorted_wrt (<) (map mutation_znode_name (mutations example_stale_queue))"
    by (simp add: example_stale_queue_def example_mutation_def)
  have dst: "distinct (map fst (zk_mutations example_zookeeper))"
    by (simp add: example_zookeeper_def)
  have kept: "obsolete_removed (map fst (zk_mutations example_zookeeper)) (mutations example_stale_queue)
       = [example_mutation ''0000000001'' 5]"
    by (simp add: obsolete_removed_def example_zookeeper_def example_stale_queue_def example_mutation_def)
  have load: "entries_to_load_spec (map fst (zk_mutations example_zookeeper)) [example_mutation ''0000000001'' 5]
       = [''0000000002'', ''0000000003'']"
    by (simp add: entries_to_load_spec_def example_zookeeper_def example_mutation_def)
  obtain r q' where res: "updateMutations example_zookeeper example_stale_queue = (r, q')" by force
  from updateMutations_keeps_order[OF srt dst res refl kept[symmetric]] load
  have "sorted_wrt (<) (map mutation_znode_name (mutations q'))"
    and "map mutation_znode_name (mutations q') = [''0000000001'', ''0000000002'', ''0000000003'']"
    and "r = Inr True"
    by (auto simp: example_mutation_def)
  with srt dst kept load res show ?thesis by simp
qed

subsection \<open>getMutationCommands\<close>

text \<open>What getMutationCommands does on every input: it throws when the desired version
  is not in the partition, it runs past the end when a mutation lies after the desired
  version and at or below the data version of the part, and otherwise it returns the
  commands of the mutations after the data version up to the desired version, in
  version order.\<close>

lemma collect_commands_range:
  "it \<le> end' \<Longrightarrow> end' \<le> length m \<Longrightarrow>
     collect_commands m it end' acc
       = Inr (acc @ concat (map (\<lambda>kv. commands (snd kv)) (take (end' - it) (drop it m))))"
proof (induction m it end' acc rule: collect_commands.induct)
  case (1 m it end' acc)
  show ?case
  proof (cases "it = end'")
    case True
    then show ?thesis by simp
  next
    case False
    with "1.prems" have lt: "it < end'" "it < length m" by simp_all
    then have d: "drop it m = m ! it # drop (Suc it) m" by (simp add: Cons_nth_drop_Suc)
    have t: "end' - it = Suc (end' - Suc it)" using lt by simp
    from "1.IH"[OF False] lt "1.prems"
    have "collect_commands m (Suc it) end' (acc @ commands (snd (m ! it)))
            = Inr ((acc @ commands (snd (m ! it)))
                   @ concat (map (\<lambda>kv. commands (snd kv)) (take (end' - Suc it) (drop (Suc it) m))))"
      by simp
    then show ?thesis
      using False lt by (subst collect_commands.simps) (simp add: d t)
  qed
qed

lemma collect_commands_past_the_end:
  "end' < it \<Longrightarrow> collect_commands m it end' acc = Inl PAST_THE_END"
proof (induction m it end' acc rule: collect_commands.induct)
  case (1 m it end' acc)
  show ?case
  proof (cases "it \<ge> length m")
    case True
    with "1.prems" show ?thesis by (subst collect_commands.simps) simp
  next
    case False
    with "1.prems" "1.IH" have "collect_commands m (Suc it) end' (acc @ commands (snd (m ! it))) = Inl PAST_THE_END"
      by simp
    with False "1.prems" show ?thesis by (subst collect_commands.simps) simp
  qed
qed

lemma map_find_end: "map_find m k = length m \<longleftrightarrow> k \<notin> fst ` set m"
proof -
  have "length (takeWhile (\<lambda>kv. fst kv \<noteq> k) m) = length m \<longleftrightarrow> (\<forall>kv \<in> set m. fst kv \<noteq> k)"
    by (induction m) auto
  then show ?thesis by (auto simp: map_find_def)
qed

lemma takeWhile_less_filter:
  "sorted_wrt (<) (map fst m) \<Longrightarrow> k \<in> fst ` set m \<Longrightarrow>
     takeWhile (\<lambda>kv. fst kv \<noteq> (k::int)) m = filter (\<lambda>kv. fst kv < k) m"
proof (induction m)
  case Nil then show ?case by simp
next
  case (Cons a m)
  show ?case
  proof (cases "fst a = k")
    case True
    with Cons.prems have "\<forall>kv \<in> set m. \<not> fst kv < k" by fastforce
    then have "filter (\<lambda>kv. fst kv < k) m = []" by (simp add: filter_empty_conv)
    with True show ?thesis by simp
  next
    case False
    with Cons.prems have "k \<in> fst ` set m" by auto
    moreover from this Cons.prems have "fst a < k" by fastforce
    ultimately show ?thesis using Cons False by simp
  qed
qed

lemma sorted_split:
  "sorted_wrt (<) (map fst m) \<Longrightarrow>
     m = filter (\<lambda>kv. fst kv \<le> (x::int)) m @ filter (\<lambda>kv. x < fst kv) m"
proof -
  assume s: "sorted_wrt (<) (map fst m)"
  have "m = takeWhile (\<lambda>kv. fst kv \<le> x) m @ dropWhile (\<lambda>kv. fst kv \<le> x) m" by simp
  moreover have "dropWhile (\<lambda>kv. fst kv \<le> x) m = filter (\<lambda>kv. x < fst kv) m"
    using s
  proof (induction m)
    case Nil then show ?case by simp
  next
    case (Cons a m)
    show ?case
    proof (cases "fst a \<le> x")
      case True with Cons show ?thesis by simp
    next
      case False
      with Cons.prems have "\<forall>kv \<in> set m. x < fst kv" by fastforce
      then have "filter (\<lambda>kv. x < fst kv) m = m" by (simp add: filter_id_conv)
      with False show ?thesis by simp
    qed
  qed
  ultimately show ?thesis using takeWhile_le_filter[OF s, of x] by simp
qed


lemma length_filter_le_desired:
  assumes srt: "sorted_wrt (<) (map fst m)" and present: "desired \<in> fst ` set m"
  shows "Suc (map_find m desired) = length (filter (\<lambda>kv. fst kv \<le> (desired::int)) m)"
proof -
  have eq1: "length (filter (\<lambda>kv. fst kv = desired) m) = 1"
    using srt present
  proof (induction m)
    case Nil then show ?case by simp
  next
    case (Cons a m)
    show ?case
    proof (cases "fst a = desired")
      case True
      with Cons.prems have "\<forall>kv \<in> set m. fst kv \<noteq> desired" by fastforce
      then have "filter (\<lambda>kv. fst kv = desired) m = []" by (simp add: filter_empty_conv)
      with True show ?thesis by simp
    next
      case False
      with Cons show ?thesis by auto
    qed
  qed
  have "length (filter (\<lambda>kv. fst kv \<le> desired) m)
          = length (filter (\<lambda>kv. fst kv < desired) m) + length (filter (\<lambda>kv. fst kv = desired) m)"
    by (induction m) auto
  with eq1 show ?thesis
    by (simp add: map_find_def takeWhile_less_filter[OF srt present])
qed


lemma getMutationCommands_result:
  assumes m: "mutations_by_partition q (partition_id part_info) = Some m"
    and srt: "sorted_wrt (<) (map fst m)"
  shows "getMutationCommands q part_info desired =
     (if desired \<notin> fst ` set m
      then Inl (LOGICAL_ERROR ''Mutation with version not found in partition ID'')
      else if \<exists>k \<in> fst ` set m. desired < k \<and> k \<le> data_version part_info
      then Inl PAST_THE_END
      else Inr (concat (map (\<lambda>kv. commands (snd kv))
                  (filter (\<lambda>kv. data_version part_info < fst kv \<and> fst kv \<le> desired) m))))"
proof (cases "desired \<in> fst ` set m")
  case False
  then show ?thesis using m by (simp add: getMutationCommands_def Let_def map_find_end)
next
  case True
  let ?dv = "data_version part_info"
  let ?A = "filter (\<lambda>kv. fst kv \<le> ?dv) m"
  let ?B = "filter (\<lambda>kv. ?dv < fst kv) m"
  let ?b = "upper_bound m ?dv"
  let ?e = "Suc (map_find m desired)"
  have b: "?b = length ?A" by (simp add: upper_bound_def takeWhile_le_filter[OF srt])
  have e: "?e = length (filter (\<lambda>kv. fst kv \<le> desired) m)"
    using length_filter_le_desired[OF srt True] .
  have ne: "map_find m desired \<noteq> length m" using True by (simp add: map_find_end)
  have g: "getMutationCommands q part_info desired = collect_commands m ?b ?e []"
    using m ne by (simp add: getMutationCommands_def Let_def)
  show ?thesis
  proof (cases "\<exists>k \<in> fst ` set m. desired < k \<and> k \<le> ?dv")
    case ex: True
    then obtain kv where kv: "kv \<in> set m" "desired < fst kv" "fst kv \<le> ?dv" by auto
    have "filter (\<lambda>kv. fst kv \<le> desired) m = filter (\<lambda>kv. fst kv \<le> desired) ?A"
      using kv by (auto intro!: filter_cong)
    moreover have "length (filter (\<lambda>kv. fst kv \<le> desired) ?A) < length ?A"
      using kv by (intro length_filter_less[of kv]) auto
    ultimately have "?e < ?b" using b e by simp
    from collect_commands_past_the_end[OF this] g True ex show ?thesis by simp
  next
    case nex: False
    then have all: "\<forall>kv \<in> set m. fst kv \<le> ?dv \<longrightarrow> fst kv \<le> desired" by force
    have split: "m = ?A @ ?B" using sorted_split[OF srt] .
    have dr: "drop ?b m = ?B" unfolding b by (subst split) simp
    have fA: "filter (\<lambda>kv. fst kv \<le> desired) ?A = ?A" using all by (intro filter_True) simp
    have "filter (\<lambda>kv. fst kv \<le> desired) m
            = filter (\<lambda>kv. fst kv \<le> desired) ?A @ filter (\<lambda>kv. fst kv \<le> desired) ?B"
      by (subst split) simp
    then have le: "length (filter (\<lambda>kv. fst kv \<le> desired) m)
                     = length ?A + length (filter (\<lambda>kv. fst kv \<le> desired) ?B)"
      unfolding fA by simp
    have sB: "sorted_wrt (<) (map fst ?B)" using srt by (simp add: sorted_wrt_map sorted_wrt_filter)
    have "filter (\<lambda>kv. fst kv \<le> desired) ?B = takeWhile (\<lambda>kv. fst kv \<le> desired) ?B"
      using takeWhile_le_filter[OF sB, of desired] by simp
    also have "\<dots> = take (length (takeWhile (\<lambda>kv. fst kv \<le> desired) ?B)) ?B"
      by (rule takeWhile_eq_take)
    also have "length (takeWhile (\<lambda>kv. fst kv \<le> desired) ?B) = ?e - ?b"
      using takeWhile_le_filter[OF sB, of desired] le b e by simp
    finally have tk: "take (?e - ?b) (drop ?b m) = filter (\<lambda>kv. fst kv \<le> desired) ?B"
      unfolding dr by simp
    have fl: "filter (\<lambda>kv. fst kv \<le> desired) ?B
                = filter (\<lambda>kv. ?dv < fst kv \<and> fst kv \<le> desired) m"
      by (simp add: conj_commute)
    have "?b \<le> ?e" using le b e by simp
    moreover have "?e \<le> length m" unfolding e by simp
    ultimately have "collect_commands m ?b ?e [] =
        Inr ([] @ concat (map (\<lambda>kv. commands (snd kv)) (take (?e - ?b) (drop ?b m))))"
      by (rule collect_commands_range)
    with g True nex tk fl show ?thesis by simp
  qed
qed

text \<open>
  Claim C5. Evaluated on a partition with the mutations 5 and 10: for a part whose data
  version is 12 and the desired version 5, which is present, the loop starts at
  \<^verbatim>\<open>begin = end()\<close> and has to reach the position after 5, which lies behind it, so it
  steps past the end of the map instead of returning the empty list of commands. For a
  data version at or below the desired version the function returns the commands in the
  range.
\<close>

theorem getMutationCommands_past_the_end:
  "mutations_by_partition example_mutations_queue ''all''
     = Some [(5, example_mutation ''0000000000'' 5), (10, example_mutation ''0000000001'' 10)]
   \<and> data_version (MergeTreePartInfo_make ''all'' 12 12 0) = 12
   \<and> getMutationCommands example_mutations_queue (MergeTreePartInfo_make ''all'' 12 12 0) 5
       = Inl PAST_THE_END
   \<and> getMutationCommands example_mutations_queue (MergeTreePartInfo_make ''all'' 7 7 0) 5 = Inr []
   \<and> getMutationCommands example_mutations_queue (MergeTreePartInfo_make ''all'' 3 3 0) 10
       = Inr [''0000000000'', ''0000000001'']"
  by (simp add: example_mutations_queue_def empty_queue_def MergeTreePartInfo_make_def
        getMutationCommands_def data_version_def upper_bound_def map_find_def example_mutation_def Let_def)

subsection \<open>load\<close>

lemma insertUnlocked_queue:
  "insertUnlocked fromPartName entry changed q = (changed', q') \<Longrightarrow>
     entries q' = entries q \<and> set (queue q') = insert entry (set (queue q))"
  by (auto simp: insertUnlocked_def Let_def split: if_splits)

lemma load_step:
  assumes nd: "no_dangling q"
    and ins: "insertUnlocked fromPartName (length (entries q)) changed
                (q\<lparr>entries := entries q @ [e]\<rparr>) = (changed', q2)"
  shows "no_dangling q2 \<and> znode_names q2 = insert (znode_name e) (znode_names q)"
proof -
  from insertUnlocked_queue[OF ins]
  have en: "entries q2 = entries q @ [e]"
    and qu: "set (queue q2) = insert (length (entries q)) (set (queue q))" by simp_all
  have old: "\<forall>p \<in> set (queue q). (entries q @ [e]) ! p = entries q ! p"
    using nd by (simp add: no_dangling_def nth_append)
  have "no_dangling q2" using nd en qu by (auto simp: no_dangling_def)
  moreover have "znode_names q2 = insert (znode_name e) (znode_names q)"
    using old by (auto simp: znode_names_def en qu)
  ultimately show ?thesis by simp
qed

lemma load_entries_names:
  "no_dangling q \<Longrightarrow> set children \<subseteq> fst ` set nodes \<Longrightarrow>
   load_entries nodes fromPartName children (updated, changed, q) = (thrown, updated', changed', q') \<Longrightarrow>
     no_dangling q' \<and> znode_names q' = znode_names q \<union> set children \<and> thrown = None"
proof (induction children arbitrary: updated changed q)
  case Nil
  then show ?case by simp
next
  case (Cons child children)
  from Cons.prems(2) have "child \<in> fst ` set nodes" by simp
  then obtain body where b: "map_of nodes child = Some body"
    by (metis map_of_eq_None_iff not_Some_eq)
  let ?e = "(LogEntry_parse body)\<lparr>znode_name := child\<rparr>"
  obtain c2 q2 where ins: "insertUnlocked fromPartName (length (entries q)) changed
                (q\<lparr>entries := entries q @ [?e]\<rparr>) = (c2, q2)" by force
  from load_step[OF Cons.prems(1) ins]
  have nd2: "no_dangling q2" and n2: "znode_names q2 = insert child (znode_names q)" by simp_all
  have "load_entries nodes fromPartName children (True, c2, q2) = (thrown, updated', changed', q')"
    using Cons.prems(3) b ins by (simp add: Let_def)
  from Cons.IH[OF nd2 _ this] Cons.prems(2) n2 show ?case by auto
qed

text \<open>
  Claim C8. After a call to load, every child name that the coordinator returns is
  among the znode names of the queued entries; a second call with the same coordinator
  state filters out all the children, inserts nothing and leaves the queue (and the
  whole state) as the first call left it, and returns false.
\<close>

theorem load_twice:
  assumes nd: "no_dangling q"
    and first: "load fromPartName zookeeper q = (r, q1)"
  shows "set (map fst (zk_queue zookeeper)) \<subseteq> znode_names q1
       \<and> load fromPartName zookeeper q1 = (Inr (False, None), q1)"
proof -
  let ?children = "sort (filter (\<lambda>path. path \<notin> znode_names q) (map fst (zk_queue zookeeper)))"
  obtain thrown u c q' where le:
    "load_entries (zk_queue zookeeper) fromPartName ?children (False, None, q) = (thrown, u, c, q')"
    by (metis prod_cases4)
  have q1: "q1 = q'"
    using first le by (simp add: load_def znode_names_def Let_def split: option.splits)
  have "set ?children \<subseteq> fst ` set (zk_queue zookeeper)" by auto
  from load_entries_names[OF nd this le]
  have nd': "no_dangling q'" and names: "znode_names q' = znode_names q \<union> set ?children" by simp_all
  have sub: "set (map fst (zk_queue zookeeper)) \<subseteq> znode_names q'"
    unfolding names by auto
  then have "filter (\<lambda>path. path \<notin> znode_names q') (map fst (zk_queue zookeeper)) = []"
    by (auto simp: filter_empty_conv)
  then have "load fromPartName zookeeper q' = (Inr (False, None), q')"
    by (simp add: load_def znode_names_def[symmetric] Let_def)
  with sub q1 show ?thesis by simp
qed

lemmas load_example_simps = load_def empty_queue_def example_zookeeper_def insertUnlocked_def Let_def
  LogEntry_parse_def example_entry_def ByTime_def ActiveDataPartSet_add_def example_fromPartName_def
  MergeTreePartInfo_make_def contains_def

theorem load_twice_witness:
  "no_dangling empty_queue
   \<and> queue (snd (load example_fromPartName example_zookeeper empty_queue)) = [0, 1]
   \<and> znode_names (snd (load example_fromPartName example_zookeeper empty_queue))
       = {''queue-0000000000'', ''queue-0000000001''}
   \<and> load example_fromPartName example_zookeeper
        (snd (load example_fromPartName example_zookeeper empty_queue))
       = (Inr (False, None), snd (load example_fromPartName example_zookeeper empty_queue))"
proof -
  have nd: "no_dangling empty_queue" by (simp add: no_dangling_def empty_queue_def)
  have q: "queue (snd (load example_fromPartName example_zookeeper empty_queue)) = [0, 1]"
    by (simp add: load_example_simps)
  have n: "znode_names (snd (load example_fromPartName example_zookeeper empty_queue))
       = {''queue-0000000000'', ''queue-0000000001''}"
    by (simp add: znode_names_def load_example_simps)
  from load_twice[OF nd surjective_pairing, of example_zookeeper example_fromPartName] q n nd show ?thesis by simp
qed

subsection \<open>The executing-entry handle\<close>

lemma all_tagged_names_Union:
  "all_tagged_names q = (\<Union>p \<in> executing q. entry_names (entries q ! p))"
  by (auto simp: all_tagged_names_def tagged_names_def entry_names_def executing_def split: if_splits)

lemma queue_invI:
  assumes "handles = executing q"
    and "\<And>p. p < length (entries q) \<Longrightarrow> p \<notin> executing q \<Longrightarrow> actual_new_part_name (entries q ! p) = []"
    and "future_parts q = (\<Union>p \<in> executing q. entry_names (entries q ! p))"
    and "\<And>p p'. p \<in> executing q \<Longrightarrow> p' \<in> executing q \<Longrightarrow> p \<noteq> p' \<Longrightarrow>
           entry_names (entries q ! p) \<inter> entry_names (entries q ! p') = {}"
    and "no_dangling q"
  shows "queue_inv (q, handles)"
  using assms unfolding queue_inv_def Let_def fst_conv snd_conv all_tagged_names_Union by blast

lemma queue_invD:
  assumes "queue_inv (q, handles)"
  shows "handles = executing q"
    and "\<And>p. p < length (entries q) \<Longrightarrow> p \<notin> executing q \<Longrightarrow> actual_new_part_name (entries q ! p) = []"
    and "future_parts q = (\<Union>p \<in> executing q. entry_names (entries q ! p))"
    and "\<And>p p'. p \<in> executing q \<Longrightarrow> p' \<in> executing q \<Longrightarrow> p \<noteq> p' \<Longrightarrow>
           entry_names (entries q ! p) \<inter> entry_names (entries q ! p') = {}"
    and "no_dangling q"
  using assms unfolding queue_inv_def Let_def fst_conv snd_conv all_tagged_names_Union by blast+

lemma queue_inv_empty: "queue_inv (empty_queue, {})"
  by (rule queue_invI) (simp_all add: empty_queue_def executing_def no_dangling_def)

text \<open>One entry is tagged.\<close>

lemma tag_preserves:
  assumes inv: "queue_inv (q, handles)"
    and len: "length (entries q') = length (entries q)"
    and oth: "\<And>r. r < length (entries q) \<Longrightarrow> r \<noteq> p \<Longrightarrow> entries q' ! r = entries q ! r"
    and p: "p < length (entries q)"
    and qu: "queue q' = queue q"
    and idle: "\<not> currently_executing (entries q ! p)"
    and busy: "currently_executing (entries q' ! p)"
    and new: "new_part_name (entries q' ! p) = n" "actual_new_part_name (entries q' ! p) = actual_new_part_name (entries q ! p)"
    and fresh: "n \<notin> future_parts q"
    and fp: "future_parts q' = insert n (future_parts q)"
  shows "queue_inv (q', insert p handles)"
proof (rule queue_invI)
  note d = queue_invD[OF inv]
  have pe: "p \<notin> executing q" using idle by (simp add: executing_def)
  have ex: "executing q' = insert p (executing q)"
  proof (rule set_eqI)
    fix r
    show "r \<in> executing q' \<longleftrightarrow> r \<in> insert p (executing q)"
      using len oth[of r] p busy idle by (cases "r = p") (auto simp: executing_def)
  qed
  have act: "actual_new_part_name (entries q ! p) = []" using d(2)[OF p pe] .
  have np: "entry_names (entries q' ! p) = {n}" using new act by (simp add: entry_names_def)
  have no: "\<And>r. r \<in> executing q \<Longrightarrow> entries q' ! r = entries q ! r"
    using oth pe by (auto simp: executing_def)
  show "insert p handles = executing q'" using d(1) ex by simp
  show "actual_new_part_name (entries q' ! r) = []" if "r < length (entries q')" "r \<notin> executing q'" for r
  proof -
    from that ex have "r \<noteq> p" "r \<notin> executing q" by auto
    with that(1) len have "entries q' ! r = entries q ! r" "actual_new_part_name (entries q ! r) = []"
      using oth[of r] d(2)[of r] by simp_all
    then show ?thesis by simp
  qed
  show "future_parts q' = (\<Union>p \<in> executing q'. entry_names (entries q' ! p))"
  proof -
    have "(\<Union>r \<in> executing q. entry_names (entries q' ! r)) = (\<Union>r \<in> executing q. entry_names (entries q ! r))"
      using no by simp
    then show ?thesis unfolding fp ex d(3) using np by simp
  qed
  show "entry_names (entries q' ! r) \<inter> entry_names (entries q' ! r') = {}"
    if "r \<in> executing q'" "r' \<in> executing q'" "r \<noteq> r'" for r r'
  proof -
    have fr: "n \<notin> entry_names (entries q' ! s)" if "s \<in> executing q" for s
      using fresh that no[OF that] unfolding d(3) by auto
    have old: "entry_names (entries q' ! s) \<inter> entry_names (entries q' ! s') = {}"
      if "s \<in> executing q" "s' \<in> executing q" "s \<noteq> s'" for s s'
      using d(4)[OF that] no[OF that(1)] no[OF that(2)] by simp
    from that(1,2) have "r = p \<or> r \<in> executing q" "r' = p \<or> r' \<in> executing q"
      unfolding ex by blast+
    with that(3) consider "r = p" "r' \<in> executing q" | "r' = p" "r \<in> executing q"
      | "r \<in> executing q" "r' \<in> executing q" by blast
    then show ?thesis
    proof cases
      case 1
      show ?thesis unfolding 1(1) np using fr[OF 1(2)] by simp
    next
      case 2
      show ?thesis unfolding 2(1) np using fr[OF 2(2)] by simp
    next
      case 3
      show ?thesis using old[OF 3 that(3)] .
    qed
  qed
  show "no_dangling q'" using d(5) len qu by (simp add: no_dangling_def)
qed


text \<open>One entry is untagged.\<close>

lemma untag_preserves:
  assumes inv: "queue_inv (q, handles)"
    and len: "length (entries q') = length (entries q)"
    and oth: "\<And>r. r < length (entries q) \<Longrightarrow> r \<noteq> p \<Longrightarrow> entries q' ! r = entries q ! r"
    and p: "p < length (entries q)"
    and qu: "queue q' = queue q"
    and busy: "currently_executing (entries q ! p)"
    and idle: "\<not> currently_executing (entries q' ! p)"
    and act: "actual_new_part_name (entries q' ! p) = []"
    and fp: "future_parts q' = future_parts q - entry_names (entries q ! p)"
  shows "queue_inv (q', handles - {p})"
proof (rule queue_invI)
  note d = queue_invD[OF inv]
  have pe: "p \<in> executing q" using busy p by (simp add: executing_def)
  have ex: "executing q' = executing q - {p}"
  proof (rule set_eqI)
    fix r
    show "r \<in> executing q' \<longleftrightarrow> r \<in> executing q - {p}"
      using len oth[of r] p busy idle by (cases "r = p") (auto simp: executing_def)
  qed
  have no: "entries q' ! r = entries q ! r" if "r \<in> executing q'" for r
    using that oth[of r] unfolding ex by (simp add: executing_def)
  show "handles - {p} = executing q'" using d(1) ex by simp
  show "actual_new_part_name (entries q' ! r) = []" if "r < length (entries q')" "r \<notin> executing q'" for r
  proof (cases "r = p")
    case True then show ?thesis using act by simp
  next
    case False
    with that ex have "r \<notin> executing q" by simp
    with that(1) len False have "entries q' ! r = entries q ! r" "actual_new_part_name (entries q ! r) = []"
      using oth[of r] d(2)[of r] by simp_all
    then show ?thesis by simp
  qed
  show "future_parts q' = (\<Union>p \<in> executing q'. entry_names (entries q' ! p))"
  proof -
    have "(\<Union>r \<in> executing q'. entry_names (entries q' ! r)) = (\<Union>r \<in> executing q - {p}. entry_names (entries q ! r))"
      using no ex by simp
    also have "\<dots> = (\<Union>r \<in> executing q. entry_names (entries q ! r)) - entry_names (entries q ! p)"
    proof (rule set_eqI)
      fix x
      show "x \<in> (\<Union>r \<in> executing q - {p}. entry_names (entries q ! r))
            \<longleftrightarrow> x \<in> (\<Union>r \<in> executing q. entry_names (entries q ! r)) - entry_names (entries q ! p)"
      proof
        assume "x \<in> (\<Union>r \<in> executing q - {p}. entry_names (entries q ! r))"
        then obtain r where r: "r \<in> executing q" "r \<noteq> p" "x \<in> entry_names (entries q ! r)" by blast
        with d(4)[OF r(1) pe r(2)] have "x \<notin> entry_names (entries q ! p)" by blast
        with r show "x \<in> (\<Union>r \<in> executing q. entry_names (entries q ! r)) - entry_names (entries q ! p)"
          by blast
      next
        assume "x \<in> (\<Union>r \<in> executing q. entry_names (entries q ! r)) - entry_names (entries q ! p)"
        then show "x \<in> (\<Union>r \<in> executing q - {p}. entry_names (entries q ! r))" by blast
      qed
    qed
    finally show ?thesis unfolding fp d(3) by simp
  qed
  show "entry_names (entries q' ! r) \<inter> entry_names (entries q' ! r') = {}"
    if "r \<in> executing q'" "r' \<in> executing q'" "r \<noteq> r'" for r r'
  proof -
    from that(1,2) have "r \<in> executing q" "r' \<in> executing q" unfolding ex by blast+
    from d(4)[OF this that(3)] show ?thesis using no[OF that(1)] no[OF that(2)] by simp
  qed
  show "no_dangling q'" using d(5) len qu by (simp add: no_dangling_def)
qed

text \<open>The executing entry \<open>p\<close> gets an actual name.\<close>

lemma actual_preserves:
  assumes inv: "queue_inv (q, handles)"
    and len: "length (entries q') = length (entries q)"
    and oth: "\<And>r. r < length (entries q) \<Longrightarrow> r \<noteq> p \<Longrightarrow> entries q' ! r = entries q ! r"
    and p: "p < length (entries q)"
    and qu: "queue q' = queue q"
    and busy: "currently_executing (entries q ! p)" "currently_executing (entries q' ! p)"
    and new: "new_part_name (entries q' ! p) = new_part_name (entries q ! p)"
    and act: "actual_new_part_name (entries q ! p) = []" "actual_new_part_name (entries q' ! p) = a" "a \<noteq> []"
    and fp: "future_parts q' = insert a (future_parts q)"
    and fresh: "a = new_part_name (entries q ! p) \<or> a \<notin> future_parts q"
  shows "queue_inv (q', handles)"
proof (rule queue_invI)
  note d = queue_invD[OF inv]
  have pe: "p \<in> executing q" using busy p by (simp add: executing_def)
  have ex: "executing q' = executing q"
  proof (rule set_eqI)
    fix r
    show "r \<in> executing q' \<longleftrightarrow> r \<in> executing q"
      using len oth[of r] p busy by (cases "r = p") (auto simp: executing_def)
  qed
  have np: "entry_names (entries q ! p) = {new_part_name (entries q ! p)}"
    using act by (simp add: entry_names_def)
  have np': "entry_names (entries q' ! p) = insert a (entry_names (entries q ! p))"
    using act new by (auto simp: entry_names_def)
  have no: "entries q' ! r = entries q ! r" if "r \<in> executing q" "r \<noteq> p" for r
    using that oth[of r] by (simp add: executing_def)
  have fr: "a \<notin> entry_names (entries q ! r)" if "r \<in> executing q" "r \<noteq> p" for r
  proof
    assume x: "a \<in> entry_names (entries q ! r)"
    then have "a \<in> future_parts q" unfolding d(3) using that(1) by blast
    with fresh have "a \<in> entry_names (entries q ! p)" using np by simp
    with x d(4)[OF that(1) pe that(2)] show False by blast
  qed
  show "handles = executing q'" using d(1) ex by simp
  show "actual_new_part_name (entries q' ! r) = []" if "r < length (entries q')" "r \<notin> executing q'" for r
  proof -
    from that ex pe have "r \<noteq> p" "r \<notin> executing q" by auto
    with that(1) len have "entries q' ! r = entries q ! r" "actual_new_part_name (entries q ! r) = []"
      using oth[of r] d(2)[of r] by simp_all
    then show ?thesis by simp
  qed
  show "future_parts q' = (\<Union>p \<in> executing q'. entry_names (entries q' ! p))"
  proof (rule set_eqI)
    fix x
    show "x \<in> future_parts q' \<longleftrightarrow> x \<in> (\<Union>p \<in> executing q'. entry_names (entries q' ! p))"
    proof
      assume "x \<in> future_parts q'"
      then have "x = a \<or> x \<in> (\<Union>r \<in> executing q. entry_names (entries q ! r))"
        unfolding fp d(3) by simp
      then show "x \<in> (\<Union>p \<in> executing q'. entry_names (entries q' ! p))"
      proof
        assume "x = a"
        then have "x \<in> entry_names (entries q' ! p)" using np' by simp
        then show ?thesis unfolding ex using pe by blast
      next
        assume "x \<in> (\<Union>r \<in> executing q. entry_names (entries q ! r))"
        then obtain r where r: "r \<in> executing q" "x \<in> entry_names (entries q ! r)" by blast
        then have "x \<in> entry_names (entries q' ! r)"
          using np' no[OF r(1)] by (cases "r = p") simp_all
        with r(1) show ?thesis unfolding ex by blast
      qed
    next
      assume "x \<in> (\<Union>p \<in> executing q'. entry_names (entries q' ! p))"
      then obtain r where r: "r \<in> executing q" "x \<in> entry_names (entries q' ! r)"
        unfolding ex by blast
      then have "x = a \<or> x \<in> entry_names (entries q ! r)"
        using np' no[OF r(1)] by (cases "r = p") simp_all
      with r(1) show "x \<in> future_parts q'" unfolding fp d(3) by blast
    qed
  qed
  show "entry_names (entries q' ! r) \<inter> entry_names (entries q' ! r') = {}"
    if "r \<in> executing q'" "r' \<in> executing q'" "r \<noteq> r'" for r r'
  proof -
    from that(1,2) have e: "r \<in> executing q" "r' \<in> executing q" unfolding ex by blast+
    note dj = d(4)[OF e that(3)]
    note neq = that(3)
    consider "r = p" "r' \<noteq> p" | "r' = p" "r \<noteq> p" | "r \<noteq> p" "r' \<noteq> p" using neq by blast
    then show ?thesis
    proof cases
      case 1
      show ?thesis using dj fr[OF e(2) 1(2)] no[OF e(2) 1(2)] unfolding 1(1) np' by simp
    next
      case 2
      show ?thesis using dj fr[OF e(1) 2(2)] no[OF e(1) 2(2)] unfolding 2(1) np' by simp
    next
      case 3
      show ?thesis using dj no[OF e(1) 3(1)] no[OF e(2) 3(2)] by simp
    qed
  qed
  show "no_dangling q'" using d(5) len qu by (simp add: no_dangling_def)
qed

text \<open>The entries stay as they are.\<close>

lemma same_entries_preserves:
  assumes inv: "queue_inv (q, handles)"
    and en: "entries q' = entries q"
    and qu: "set (queue q') \<subseteq> set (queue q)"
    and fp: "future_parts q' = future_parts q"
  shows "queue_inv (q', handles)"
proof (rule queue_invI)
  note d = queue_invD[OF inv]
  have ex: "executing q' = executing q" by (simp add: executing_def en)
  show "handles = executing q'" using d(1) ex by simp
  show "actual_new_part_name (entries q' ! r) = []" if "r < length (entries q')" "r \<notin> executing q'" for r
    using that d(2)[of r] unfolding ex en by simp
  show "future_parts q' = (\<Union>p \<in> executing q'. entry_names (entries q' ! p))"
    unfolding ex en fp using d(3) .
  show "entry_names (entries q' ! r) \<inter> entry_names (entries q' ! r') = {}"
    if "r \<in> executing q'" "r' \<in> executing q'" "r \<noteq> r'" for r r'
    using that d(4)[of r r'] unfolding ex en by simp
  show "no_dangling q'" using d(5) qu unfolding no_dangling_def en by blast
qed

text \<open>A new entry, not executing and with no actual name, is allocated and queued.\<close>

lemma new_entry_preserves:
  assumes inv: "queue_inv (q, handles)"
    and en: "entries q' = entries q @ [e]"
    and qu: "set (queue q') \<subseteq> insert (length (entries q)) (set (queue q))"
    and fp: "future_parts q' = future_parts q"
    and idle: "\<not> currently_executing e" "actual_new_part_name e = []"
  shows "queue_inv (q', handles)"
proof (rule queue_invI)
  note d = queue_invD[OF inv]
  have old: "entries q' ! r = entries q ! r" if "r < length (entries q)" for r
    using that by (simp add: en nth_append)
  have lst: "entries q' ! length (entries q) = e" by (simp add: en)
  have ex: "executing q' = executing q"
  proof (rule set_eqI)
    fix r
    show "r \<in> executing q' \<longleftrightarrow> r \<in> executing q"
      using old[of r] lst idle(1) by (cases "r = length (entries q)") (auto simp: executing_def en)
  qed
  have no: "entries q' ! r = entries q ! r" if "r \<in> executing q" for r
    using that old[of r] by (simp add: executing_def)
  show "handles = executing q'" using d(1) ex by simp
  show "actual_new_part_name (entries q' ! r) = []" if "r < length (entries q')" "r \<notin> executing q'" for r
  proof (cases "r = length (entries q)")
    case True then show ?thesis using lst idle(2) by simp
  next
    case False
    with that(1) have "r < length (entries q)" by (simp add: en)
    with that(2) show ?thesis using old[of r] d(2)[of r] unfolding ex by simp
  qed
  show "future_parts q' = (\<Union>p \<in> executing q'. entry_names (entries q' ! p))"
    unfolding ex fp d(3) using no by simp
  show "entry_names (entries q' ! r) \<inter> entry_names (entries q' ! r') = {}"
    if "r \<in> executing q'" "r' \<in> executing q'" "r \<noteq> r'" for r r'
  proof -
    from that(1,2) have e: "r \<in> executing q" "r' \<in> executing q" unfolding ex by blast+
    from d(4)[OF e that(3)] show ?thesis using no[OF e(1)] no[OF e(2)] by simp
  qed
  show "no_dangling q'" using d(5) qu unfolding no_dangling_def en by (fastforce simp: less_Suc_eq)
qed


lemma insertUnlocked_future_parts:
  "future_parts (snd (insertUnlocked fromPartName entry changed q)) = future_parts q"
  by (simp add: insertUnlocked_def Let_def)

lemma destroy_effect:
  assumes "p < length (entries q)" and "q' = CurrentlyExecuting_destroy p q"
  shows "length (entries q') = length (entries q)"
    and "\<And>r. r < length (entries q) \<Longrightarrow> r \<noteq> p \<Longrightarrow> entries q' ! r = entries q ! r"
    and "queue q' = queue q"
    and "\<not> currently_executing (entries q' ! p)"
    and "actual_new_part_name (entries q' ! p) = []"
    and "future_parts q' = future_parts q - entry_names (entries q ! p)"
  using assms by (auto simp: CurrentlyExecuting_destroy_def Let_def entry_names_def)

lemma construct_effect:
  assumes "p < length (entries q)" and "CurrentlyExecuting p now q = (None, q')"
  shows "length (entries q') = length (entries q)"
    and "\<And>r. r < length (entries q) \<Longrightarrow> r \<noteq> p \<Longrightarrow> entries q' ! r = entries q ! r"
    and "queue q' = queue q"
    and "currently_executing (entries q' ! p)"
    and "new_part_name (entries q' ! p) = new_part_name (entries q ! p)"
    and "actual_new_part_name (entries q' ! p) = actual_new_part_name (entries q ! p)"
    and "new_part_name (entries q ! p) \<notin> future_parts q"
    and "future_parts q' = insert (new_part_name (entries q ! p)) (future_parts q)"
  using assms by (auto simp: CurrentlyExecuting_def Let_def split: if_splits)

lemma setActualPartName_effect:
  assumes "p < length (entries q)" and "setActualPartName p a q = (None, q')"
  shows "length (entries q') = length (entries q)"
    and "\<And>r. r < length (entries q) \<Longrightarrow> r \<noteq> p \<Longrightarrow> entries q' ! r = entries q ! r"
    and "queue q' = queue q"
    and "currently_executing (entries q' ! p) = currently_executing (entries q ! p)"
    and "new_part_name (entries q' ! p) = new_part_name (entries q ! p)"
    and "actual_new_part_name (entries q ! p) = []"
    and "actual_new_part_name (entries q' ! p) = a"
    and "a = new_part_name (entries q ! p) \<or> a \<notin> future_parts q"
    and "future_parts q' = (if a = new_part_name (entries q ! p) then future_parts q
                            else insert a (future_parts q))"
  using assms by (auto simp: setActualPartName_def Let_def split: if_splits)

lemma remove_entry_effect:
  "entries (snd (snd (remove_entry p q))) = entries q"
  "set (queue (snd (snd (remove_entry p q)))) \<subseteq> set (queue q)"
  "future_parts (snd (snd (remove_entry p q))) = future_parts q"
proof -
  have s: "set (erase_from_back p (queue q)) \<subseteq> set (queue q)"
    using set_remove1_subset[of p "rev (queue q)"] by (simp add: erase_from_back_def)
  show "entries (snd (snd (remove_entry p q))) = entries q"
    by (simp add: remove_entry_def updateTimesOnRemoval_def Let_def split: prod.splits)
  show "future_parts (snd (snd (remove_entry p q))) = future_parts q"
    by (simp add: remove_entry_def updateTimesOnRemoval_def Let_def split: prod.splits)
  show "set (queue (snd (snd (remove_entry p q)))) \<subseteq> set (queue q)"
    using s by (simp add: remove_entry_def updateTimesOnRemoval_def Let_def split: prod.splits)
qed

lemma same_tags_refl: "same_tags q q"
  by (simp add: same_tags_def)

lemma same_tags_trans: "same_tags q q1 \<Longrightarrow> same_tags q1 q2 \<Longrightarrow> same_tags q q2"
  by (simp add: same_tags_def)

lemma same_tags_postpone_reason:
  "same_tags q (q\<lparr>entries := (entries q)[p := (entries q ! p)\<lparr>postpone_reason := r\<rparr>]\<rparr>)"
proof (cases "p < length (entries q)")
  case True
  then show ?thesis by (auto simp: same_tags_def nth_list_update)
next
  case False
  then show ?thesis by (simp add: same_tags_def list_update_beyond)
qed

lemma same_tags_postponed:
  "same_tags q (q\<lparr>entries := (entries q)[p := (entries q ! p)\<lparr>num_postponed := n, last_postpone_time := t\<rparr>]\<rparr>)"
proof (cases "p < length (entries q)")
  case True
  then show ?thesis by (auto simp: same_tags_def nth_list_update)
next
  case False
  then show ?thesis by (simp add: same_tags_def list_update_beyond)
qed

lemma set_splice: "it < length xs \<Longrightarrow> set (take it xs @ drop (Suc it) xs @ [xs ! it]) = set xs"
proof -
  assume "it < length xs"
  then have "xs = take it xs @ xs ! it # drop (Suc it) xs" by (rule id_take_nth_drop)
  then have "set xs = set (take it xs @ xs ! it # drop (Suc it) xs)" by simp
  then show ?thesis by auto
qed

lemma same_tags_splice:
  "it < length (queue q) \<Longrightarrow>
     same_tags q (q\<lparr>queue := take it (queue q) @ drop (Suc it) (queue q) @ [queue q ! it]\<rparr>)"
  using set_splice[of it "queue q"] by (simp add: same_tags_def)

lemma same_tags_executing: "same_tags q q' \<Longrightarrow> executing q' = executing q"
  by (auto simp: same_tags_def executing_def)

lemma same_tags_preserves:
  assumes inv: "queue_inv (q, handles)" and st: "same_tags q q'"
  shows "queue_inv (q', handles)"
proof (rule queue_invI)
  note d = queue_invD[OF inv]
  note ex = same_tags_executing[OF st]
  have len: "length (entries q') = length (entries q)" using st by (simp add: same_tags_def)
  have act: "actual_new_part_name (entries q' ! r) = actual_new_part_name (entries q ! r)"
    if "r < length (entries q)" for r using st that by (simp add: same_tags_def)
  have nm: "entry_names (entries q' ! r) = entry_names (entries q ! r)"
    if "r \<in> executing q" for r using st that by (simp add: same_tags_def executing_def entry_names_def)
  show "handles = executing q'" using d(1) ex by simp
  show "actual_new_part_name (entries q' ! r) = []" if "r < length (entries q')" "r \<notin> executing q'" for r
    using that d(2)[of r] act[of r] unfolding ex len by simp
  show "future_parts q' = (\<Union>p \<in> executing q'. entry_names (entries q' ! p))"
  proof -
    have "future_parts q' = future_parts q" using st by (simp add: same_tags_def)
    then show ?thesis unfolding ex d(3) using nm by simp
  qed
  show "entry_names (entries q' ! r) \<inter> entry_names (entries q' ! r') = {}"
    if "r \<in> executing q'" "r' \<in> executing q'" "r \<noteq> r'" for r r'
  proof -
    from that(1,2) have e: "r \<in> executing q" "r' \<in> executing q" unfolding ex by blast+
    from d(4)[OF e that(3)] show ?thesis using nm[OF e(1)] nm[OF e(2)] by simp
  qed
  show "no_dangling q'"
    using d(5) st by (simp add: no_dangling_def same_tags_def)
qed

lemma nth_update_beyond: "\<not> p' < length xs \<Longrightarrow> xs[p := x] ! p' = xs ! p'"
  by (cases "p = p'") (simp_all add: list_update_beyond)

lemma select_loop_same_tags:
  "select_loop fromPartName merger data now it q = (sel, q') \<Longrightarrow>
     same_tags q q'
     \<and> (\<forall>p. sel = Some p \<longrightarrow> p \<in> set (queue q) \<and> \<not> currently_executing (entries q ! p))"
proof (induction "length (queue q) - it" arbitrary: it q)
  case 0
  then have "it \<ge> length (queue q)" by simp
  with "0.prems" show ?case
    by (subst (asm) select_loop.simps) (simp add: same_tags_refl)
next
  case (Suc n)
  then have lt: "it < length (queue q)" by simp
  define p where "p = queue q ! it"
  define e where "e = entries q ! p"
  have pin: "p \<in> set (queue q)" using lt by (simp add: p_def)
  note unf = Suc.prems[unfolded select_loop.simps[of fromPartName merger data now it q]]
  show ?case
  proof (cases "currently_executing e")
    case True
    with lt unf have r: "select_loop fromPartName merger data now (Suc it) q = (sel, q')"
      by (simp add: p_def e_def Let_def)
    have "n = length (queue q) - Suc it" using Suc.hyps(2) by simp
    from Suc.hyps(1)[OF this r] show ?thesis .
  next
    case idle: False
    obtain should reason where sh: "shouldExecuteLogEntry fromPartName q e merger data = (should, reason)"
      by force
    define q1 where "q1 = (case reason of None \<Rightarrow> q
                             | Some r \<Rightarrow> q\<lparr>entries := (entries q)[p := (entries q ! p)\<lparr>postpone_reason := Some r\<rparr>]\<rparr>)"
    have st1: "same_tags q q1"
      unfolding q1_def
      by (cases reason) (simp_all add: same_tags_refl same_tags_postpone_reason)
    have qq: "queue q1 = queue q" unfolding q1_def by (cases reason) simp_all
    show ?thesis
    proof (cases should)
      case True
      with lt idle sh unf
      have r: "sel = Some p" "q' = q1\<lparr>queue := take it (queue q1) @ drop (Suc it) (queue q1) @ [p]\<rparr>"
        unfolding q1_def e_def p_def by (auto simp: Let_def)
      have "same_tags q1 q'"
        unfolding r(2) using same_tags_splice[of it q1] lt qq by (simp add: p_def)
      with st1 have "same_tags q q'" by (rule same_tags_trans)
      with r(1) pin idle show ?thesis by (simp add: e_def)
    next
      case no: False
      define q2 where "q2 = q1\<lparr>entries := (entries q1)[p :=
                                    (entries q1 ! p)\<lparr>num_postponed := num_postponed (entries q1 ! p) + 1,
                                                      last_postpone_time := now\<rparr>]\<rparr>"
      from lt idle sh no unf
      have r: "select_loop fromPartName merger data now (Suc it) q2 = (sel, q')"
        unfolding q2_def q1_def e_def p_def by (simp add: Let_def)
      have st2: "same_tags q1 q2" unfolding q2_def by (rule same_tags_postponed)
      have st: "same_tags q q2" using st1 st2 by (rule same_tags_trans)
      have q2q: "queue q2 = queue q" using qq by (simp add: q2_def)
      have "n = length (queue q2) - Suc it" using Suc.hyps(2) q2q by simp
      from Suc.hyps(1)[OF this r]
      have ih: "same_tags q2 q'"
        "\<forall>p'. sel = Some p' \<longrightarrow> p' \<in> set (queue q2) \<and> \<not> currently_executing (entries q2 ! p')"
        by simp_all
      have "same_tags q q'" using st ih(1) by (rule same_tags_trans)
      moreover have "p' \<in> set (queue q) \<and> \<not> currently_executing (entries q ! p')" if "sel = Some p'" for p'
      proof -
        from ih(2) that have a: "p' \<in> set (queue q2)" "\<not> currently_executing (entries q2 ! p')" by simp_all
        from a(1) q2q have b: "p' \<in> set (queue q)" by simp
        show ?thesis
        proof (cases "p' < length (entries q)")
          case True
          with st a(2) b show ?thesis by (simp add: same_tags_def)
        next
          case False
          then have "entries q2 ! p' = entries q ! p'"
            unfolding q2_def q1_def by (cases reason) (simp_all add: nth_update_beyond)
          with a(2) b show ?thesis by simp
        qed
      qed
      ultimately show ?thesis by blast
    qed
  qed
qed


lemma construct_preserves:
  assumes inv: "queue_inv (q, handles)"
    and p: "p < length (entries q)" and idle: "\<not> currently_executing (entries q ! p)"
    and c: "CurrentlyExecuting p now q = (None, q')"
  shows "queue_inv (q', insert p handles)"
proof -
  note e = construct_effect[OF p c]
  show ?thesis
    by (rule tag_preserves[OF inv e(1) e(2) p e(3) idle e(4) e(5) e(6) e(7) e(8)])
qed

lemma selectEntryToProcess_preserves:
  assumes inv: "queue_inv (q, handles)"
    and s: "selectEntryToProcess fromPartName merger data now q = (Inr sel, q')"
  shows "queue_inv (q', case sel of None \<Rightarrow> handles | Some p \<Rightarrow> insert p handles)"
proof -
  obtain sel1 q1 where l: "select_loop fromPartName merger data now 0 q = (sel1, q1)" by force
  from select_loop_same_tags[OF l]
  have st: "same_tags q q1"
    and pick: "\<And>p. sel1 = Some p \<Longrightarrow> p \<in> set (queue q) \<and> \<not> currently_executing (entries q ! p)"
    by simp_all
  have inv1: "queue_inv (q1, handles)" using inv st by (rule same_tags_preserves)
  show ?thesis
  proof (cases sel1)
    case None
    with s l have "sel = None" "q' = q1" by (simp_all add: selectEntryToProcess_def)
    with inv1 show ?thesis by simp
  next
    case (Some p)
    from pick[OF Some] queue_invD(5)[OF inv] have pl: "p < length (entries q)"
      and idle: "\<not> currently_executing (entries q ! p)" by (simp_all add: no_dangling_def)
    with st have pl1: "p < length (entries q1)" and idle1: "\<not> currently_executing (entries q1 ! p)"
      by (simp_all add: same_tags_def)
    from s l Some have c: "CurrentlyExecuting p now q1 = (None, q')" and sel: "sel = Some p"
      by (auto simp: selectEntryToProcess_def split: prod.splits option.splits)
    from construct_preserves[OF inv1 pl1 idle1 c] sel show ?thesis by simp
  qed
qed

lemma exec_preserves:
  assumes inv: "queue_inv w" and ex: "exec fromPartName op w = Inr w'"
  shows "queue_inv w'"
proof -
  obtain q handles where w: "w = (q, handles)" by (cases w)
  note inv' = inv[unfolded w]
  note d = queue_invD[OF inv']
  show ?thesis
  proof (cases op)
    case (Insert dat n)
    let ?e = "(LogEntry_parse dat)\<lparr>znode_name := n\<rparr>"
    let ?q1 = "q\<lparr>entries := entries q @ [?e]\<rparr>"
    let ?q' = "snd (insertUnlocked fromPartName (length (entries q)) None ?q1)"
    have w': "w' = (?q', handles)" using ex unfolding w Insert by (simp add: Let_def)
    from insertUnlocked_queue[OF surjective_pairing, of fromPartName "length (entries q)" None ?q1]
    have en: "entries ?q' = entries q @ [?e]"
      and qu: "set (queue ?q') \<subseteq> insert (length (entries q)) (set (queue q))" by simp_all
    have fp: "future_parts ?q' = future_parts q" by (simp add: insertUnlocked_future_parts)
    show ?thesis unfolding w'
      by (rule new_entry_preserves[OF inv' en qu fp]) (simp_all add: LogEntry_parse_def)
  next
    case (Select merger data now)
    obtain r q' where sp: "selectEntryToProcess fromPartName merger data now q = (r, q')" by force
    from ex sp obtain sel where r: "r = Inr sel"
      and w': "w' = (q', case sel of None \<Rightarrow> handles | Some p \<Rightarrow> insert p handles)"
      unfolding w Select by (cases r) (auto split: option.splits)
    show ?thesis unfolding w'
      by (rule selectEntryToProcess_preserves[OF inv' sp[unfolded r]])
  next
    case (AddFuturePart p a)
    from ex have g: "p \<in> handles" "a \<noteq> []"
      unfolding w AddFuturePart by (auto split: if_splits)
    from g(1) d(1) have pl: "p < length (entries q)" and busy: "currently_executing (entries q ! p)"
      by (simp_all add: executing_def)
    show ?thesis
    proof (cases "fst (isNotCoveredByFuturePartsImpl fromPartName q a)")
      case False
      with ex g have "w' = (q, handles)"
        unfolding w AddFuturePart by (simp add: addFuturePartIfNotCoveredByThem_def)
      with inv' show ?thesis by simp
    next
      case True
      with ex g obtain q' where c: "setActualPartName p a q = (None, q')" and w': "w' = (q', handles)"
        unfolding w AddFuturePart
        by (auto simp: addFuturePartIfNotCoveredByThem_def split: prod.splits option.splits)
      note e = setActualPartName_effect[OF pl c]
      have busy': "currently_executing (entries q' ! p)" using e(4) busy by simp
      have "new_part_name (entries q ! p) \<in> future_parts q"
        unfolding d(3) using g(1) d(1) by (auto simp: entry_names_def)
      then have fp: "future_parts q' = insert a (future_parts q)"
        using e(9) by auto
      show ?thesis unfolding w'
        by (rule actual_preserves[OF inv' e(1) e(2) pl e(3) busy busy' e(5) e(6) e(7) g(2) fp e(8)])
    qed
  next
    case (Destroy p)
    from ex have g: "p \<in> handles" and w': "w' = (CurrentlyExecuting_destroy p q, handles - {p})"
      unfolding w Destroy by (auto split: if_splits)
    from g d(1) have pl: "p < length (entries q)" and busy: "currently_executing (entries q ! p)"
      by (simp_all add: executing_def)
    note e = destroy_effect[OF pl refl]
    show ?thesis unfolding w'
      by (rule untag_preserves[OF inv' e(1) e(2) pl e(3) busy e(4) e(5) e(6)])
  next
    case (Remove p)
    from ex have w': "w' = (snd (snd (remove_entry p q)), handles)"
      unfolding w Remove by (auto split: if_splits)
    show ?thesis unfolding w'
      by (rule same_entries_preserves[OF inv' remove_entry_effect])
  qed
qed

lemma run_preserves:
  "queue_inv w \<Longrightarrow> run fromPartName ops w = Inr w' \<Longrightarrow> queue_inv w'"
proof (induction ops arbitrary: w)
  case Nil
  then show ?case by simp
next
  case (Cons op ops)
  from Cons.prems(2) obtain w1 where 1: "exec fromPartName op w = Inr w1"
    and 2: "run fromPartName ops w1 = Inr w'"
    by (auto split: sum.splits)
  from Cons.IH[OF exec_preserves[OF Cons.prems(1) 1] 2] show ?case .
qed


text \<open>
  Claim C1, as stated, fails. An entry is inserted, selectEntryToProcess constructs its
  handle, and processEntry removes it from \<open>queue\<close> before the handle is destroyed: the
  entry is still executing and its \<open>new_part_name\<close> is in \<open>future_parts\<close>, but \<open>queue\<close> is
  empty, so \<open>future_parts\<close> is not the set of the names of the executing entries of
  \<open>queue\<close>.
\<close>

theorem future_parts_queue_counterexample:
  "\<not> isl example_run
   \<and> queue (fst (projr example_run)) = []
   \<and> currently_executing (entries (fst (projr example_run)) ! 0)
   \<and> future_parts (fst (projr example_run)) = {''all_1_1_0''}
   \<and> tagged_names (entries (fst (projr example_run))) (queue (fst (projr example_run))) = {}
   \<and> future_parts (fst (projr example_run))
       \<noteq> tagged_names (entries (fst (projr example_run))) (queue (fst (projr example_run)))"
  by (simp add: example_run_def empty_queue_def example_entry_def LogEntry_parse_def
        insertUnlocked_def ActiveDataPartSet_add_def example_fromPartName_def MergeTreePartInfo_make_def
        contains_def ByTime_def ByTime_erase_def CurrentlyExecuting_def remove_entry_def erase_from_back_def
        updateTimesOnRemoval_def tagged_names_def Let_def selectEntryToProcess_def select_loop.simps
        shouldExecuteLogEntry_def isNotCoveredByFuturePartsImpl_def example_merger_def example_data_def)

text \<open>
  Claim C1, amended. In every state that a sequence of queue operations reaches from
  the empty queue without an exception, \<open>future_parts\<close> is exactly the set of the
  \<open>new_part_name\<close> of every entry alive with \<open>currently_executing = true\<close>, in \<open>queue\<close> or
  already erased from it while its handle is alive, plus the \<open>actual_new_part_name\<close> of
  each such entry when set and distinct. The handles alive are those of exactly these
  entries, and every executing entry of \<open>queue\<close> has its \<open>new_part_name\<close> in
  \<open>future_parts\<close>. Constructing the handle of a queue entry that is not executing
  (when the constructor does not throw) and destroying a handle each lead to a state
  with the same property.
\<close>

theorem future_parts_exact:
  assumes "run fromPartName ops (empty_queue, {}) = Inr (q, handles)"
  shows "future_parts q = tagged_names (entries q) [0..<length (entries q)]
       \<and> handles = {p. p < length (entries q) \<and> currently_executing (entries q ! p)}
       \<and> (\<forall>p \<in> set (queue q). currently_executing (entries q ! p)
             \<longrightarrow> new_part_name (entries q ! p) \<in> future_parts q)
       \<and> (\<forall>p now q'. p \<in> set (queue q) \<and> \<not> currently_executing (entries q ! p)
               \<and> CurrentlyExecuting p now q = (None, q')
             \<longrightarrow> future_parts q' = tagged_names (entries q') [0..<length (entries q')])
       \<and> (\<forall>p \<in> handles. future_parts (CurrentlyExecuting_destroy p q)
             = tagged_names (entries (CurrentlyExecuting_destroy p q))
                 [0..<length (entries (CurrentlyExecuting_destroy p q))])"
proof -
  have inv: "queue_inv (q, handles)"
    using run_preserves[OF queue_inv_empty assms] .
  have exact: "future_parts q' = tagged_names (entries q') [0..<length (entries q')]"
    if "queue_inv (q', h')" for q' h'
    using that unfolding queue_inv_def Let_def fst_conv snd_conv all_tagged_names_def by blast
  note d = queue_invD[OF inv]
  have 1: "future_parts q = tagged_names (entries q) [0..<length (entries q)]"
    using exact[OF inv] .
  have 2: "handles = {p. p < length (entries q) \<and> currently_executing (entries q ! p)}"
    using d(1) by (simp add: executing_def)
  have 3: "new_part_name (entries q ! p) \<in> future_parts q"
    if "p \<in> set (queue q)" "currently_executing (entries q ! p)" for p
  proof -
    from that d(5) have "p \<in> executing q" by (simp add: no_dangling_def executing_def)
    then show ?thesis unfolding d(3) by (auto simp: entry_names_def)
  qed
  have 4: "future_parts q' = tagged_names (entries q') [0..<length (entries q')]"
    if "p \<in> set (queue q)" "\<not> currently_executing (entries q ! p)" "CurrentlyExecuting p now q = (None, q')"
    for p now q'
  proof -
    from that(1) d(5) have "p < length (entries q)" by (simp add: no_dangling_def)
    from exact[OF construct_preserves[OF inv this that(2,3)]] show ?thesis .
  qed
  have 5: "future_parts (CurrentlyExecuting_destroy p q)
             = tagged_names (entries (CurrentlyExecuting_destroy p q))
                 [0..<length (entries (CurrentlyExecuting_destroy p q))]"
    if "p \<in> handles" for p
  proof -
    from that have "exec fromPartName (Destroy p) (q, handles) = Inr (CurrentlyExecuting_destroy p q, handles - {p})"
      by simp
    from exact[OF exec_preserves[OF inv this]] show ?thesis .
  qed
  from 1 2 3 4 5 show ?thesis by blast
qed


theorem future_parts_exact_witness:
  "\<not> isl example_run_actual
   \<and> queue (fst (projr example_run_actual)) = []
   \<and> snd (projr example_run_actual) = {0}
   \<and> future_parts (fst (projr example_run_actual)) = {''all_1_2_1'', ''all_1_1_0''}
   \<and> future_parts (fst (projr example_run_actual))
       = tagged_names (entries (fst (projr example_run_actual)))
           [0..<length (entries (fst (projr example_run_actual)))]
   \<and> future_parts (CurrentlyExecuting_destroy 0 (fst (projr example_run_actual)))
       = tagged_names (entries (CurrentlyExecuting_destroy 0 (fst (projr example_run_actual))))
           [0..<length (entries (CurrentlyExecuting_destroy 0 (fst (projr example_run_actual))))]"
proof -
  have ev: "\<not> isl example_run_actual
     \<and> queue (fst (projr example_run_actual)) = []
     \<and> snd (projr example_run_actual) = {0}
     \<and> future_parts (fst (projr example_run_actual)) = {''all_1_2_1'', ''all_1_1_0''}"
    by (simp add: example_run_actual_def empty_queue_def example_entry_def LogEntry_parse_def
        insertUnlocked_def ActiveDataPartSet_add_def example_fromPartName_def MergeTreePartInfo_make_def
        contains_def ByTime_def ByTime_erase_def CurrentlyExecuting_def remove_entry_def erase_from_back_def
        updateTimesOnRemoval_def addFuturePartIfNotCoveredByThem_def isNotCoveredByFuturePartsImpl_def
        setActualPartName_def Let_def selectEntryToProcess_def select_loop.simps
        shouldExecuteLogEntry_def example_merger_def example_data_def)
  then have ni: "\<not> isl example_run_actual" by (rule conjunct1)
  obtain q handles where qh: "projr example_run_actual = (q, handles)" by force
  have "example_run_actual = Inr (q, handles)"
    using sum.collapse(2)[OF ni] qh by simp
  from future_parts_exact[OF this[unfolded example_run_actual_def]]
  have "future_parts q = tagged_names (entries q) [0..<length (entries q)]"
    and "\<forall>p \<in> handles. future_parts (CurrentlyExecuting_destroy p q)
             = tagged_names (entries (CurrentlyExecuting_destroy p q))
                 [0..<length (entries (CurrentlyExecuting_destroy p q))]"
    by blast+
  moreover have "0 \<in> handles" using ev qh by simp
  ultimately show ?thesis using ev qh by simp
qed

end
